theory Spec2Isabelle
  imports Complex_Main
begin

section \<open>JavaScript numbers\<close>

text \<open>
  Every value the class \<open>TSMT$Deviates\<close> handles is a JavaScript \<open>number\<close>. The
  embedding keeps the four kinds of number apart: a finite value, the two infinities and
  \<open>NaN\<close>. Finite arithmetic is idealised: a finite double is a real and the operations
  are exact (no rounding, no overflow, a single zero). The integer state of the generator
  stays far below \<open>2^53\<close> for every seed that is a safe integer, so on that state the
  idealisation is the arithmetic JavaScript performs.
\<close>

datatype number = Num real | PInf | NInf | NaN

fun isNaN :: "number \<Rightarrow> bool" where
  "isNaN NaN = True"
| "isNaN _ = False"

text \<open>Unary minus.\<close>

fun nneg :: "number \<Rightarrow> number" where
  "nneg (Num x) = Num (- x)"
| "nneg PInf = NInf"
| "nneg NInf = PInf"
| "nneg NaN = NaN"

text \<open>\<open>a + b\<close>: opposite infinities cancel to \<open>NaN\<close>.\<close>

fun nadd :: "number \<Rightarrow> number \<Rightarrow> number" where
  "nadd (Num x) (Num y) = Num (x + y)"
| "nadd NaN _ = NaN"
| "nadd _ NaN = NaN"
| "nadd PInf NInf = NaN"
| "nadd NInf PInf = NaN"
| "nadd PInf _ = PInf"
| "nadd _ PInf = PInf"
| "nadd NInf _ = NInf"
| "nadd _ NInf = NInf"

definition nsub :: "number \<Rightarrow> number \<Rightarrow> number" where
  "nsub a b = nadd a (nneg b)"

text \<open>The sign of a number that is not \<open>NaN\<close>, as an integer.\<close>

fun nsign :: "number \<Rightarrow> int" where
  "nsign (Num x) = (if x < 0 then - 1 else if x = 0 then 0 else 1)"
| "nsign PInf = 1"
| "nsign NInf = - 1"
| "nsign NaN = 0"

text \<open>\<open>a * b\<close>: an infinity times zero is \<open>NaN\<close>.\<close>

fun nmul :: "number \<Rightarrow> number \<Rightarrow> number" where
  "nmul (Num x) (Num y) = Num (x * y)"
| "nmul NaN _ = NaN"
| "nmul _ NaN = NaN"
| "nmul a b =
     (if nsign a * nsign b = 0 then NaN else if nsign a * nsign b < 0 then NInf else PInf)"

text \<open>
  \<open>a / b\<close>. A finite value over zero is an infinity (zero taken as \<open>+0\<close>), zero over
  zero and infinity over infinity are \<open>NaN\<close>.
\<close>

fun ndiv :: "number \<Rightarrow> number \<Rightarrow> number" where
  "ndiv NaN _ = NaN"
| "ndiv _ NaN = NaN"
| "ndiv (Num x) (Num y) =
     (if y = 0 then (if x = 0 then NaN else if x < 0 then NInf else PInf) else Num (x / y))"
| "ndiv (Num x) _ = Num 0"
| "ndiv a (Num y) = (if (y < 0) = (a = PInf) then NInf else PInf)"
| "ndiv _ _ = NaN"

text \<open>The comparisons \<open><\<close>, \<open>>\<close>, \<open><=\<close>, \<open>>=\<close>: false as soon as one side is \<open>NaN\<close>.\<close>

fun nlt :: "number \<Rightarrow> number \<Rightarrow> bool" where
  "nlt (Num x) (Num y) = (x < y)"
| "nlt NaN _ = False"
| "nlt _ NaN = False"
| "nlt NInf NInf = False"
| "nlt NInf _ = True"
| "nlt _ NInf = False"
| "nlt PInf _ = False"
| "nlt _ PInf = True"

definition ngt :: "number \<Rightarrow> number \<Rightarrow> bool" where
  "ngt a b = nlt b a"

fun nle :: "number \<Rightarrow> number \<Rightarrow> bool" where
  "nle NaN _ = False"
| "nle _ NaN = False"
| "nle a b = (a = b \<or> nlt a b)"

definition nge :: "number \<Rightarrow> number \<Rightarrow> bool" where
  "nge a b = nle b a"

text \<open>\<open>a === b\<close> and \<open>a == b\<close> on numbers: \<open>NaN\<close> equals nothing.\<close>

fun nseq :: "number \<Rightarrow> number \<Rightarrow> bool" where
  "nseq NaN _ = False"
| "nseq _ NaN = False"
| "nseq a b = (a = b)"

text \<open>\<open>Math.floor\<close>, \<open>Math.log\<close>, \<open>Math.sqrt\<close>.\<close>

fun nfloor :: "number \<Rightarrow> number" where
  "nfloor (Num x) = Num (of_int \<lfloor>x\<rfloor>)"
| "nfloor a = a"

fun nlog :: "number \<Rightarrow> number" where
  "nlog (Num x) = (if x < 0 then NaN else if x = 0 then NInf else Num (ln x))"
| "nlog PInf = PInf"
| "nlog _ = NaN"

fun nsqrt :: "number \<Rightarrow> number" where
  "nsqrt (Num x) = (if x < 0 then NaN else Num (sqrt x))"
| "nsqrt PInf = PInf"
| "nsqrt _ = NaN"

text \<open>A number in a condition (\<open>if (start)\<close>): zero and \<open>NaN\<close> are falsy.\<close>

fun truthy :: "number \<Rightarrow> bool" where
  "truthy (Num x) = (x \<noteq> 0)"
| "truthy NaN = False"
| "truthy _ = True"

section \<open>The generator state\<close>

text \<open>
  The static constants of \<open>TSMT$Deviates\<close>. \<open>NDIV\<close> is computed with the floating
  division of JavaScript, so it is \<open>67108864.9375\<close>, not an integer.
\<close>

definition IA :: number where "IA = Num 16807"
definition IM :: number where "IM = Num 2147483647"
definition AM :: number where "AM = ndiv (Num 1) IM"
definition IQ :: number where "IQ = Num 127773"
definition IR :: number where "IR = Num 2836"
definition NTAB :: nat where "NTAB = 32"
definition NDIV :: number where
  "NDIV = nadd (Num 1) (ndiv (nsub IM (Num 1)) (Num (real NTAB)))"
definition EPS :: number where "EPS = Num (12 / 100000000)"
definition RNMX :: number where "RNMX = nsub (Num 1) EPS"

text \<open>
  The instance fields. The one-letter fields \<open>u\<close>, \<open>s\<close>, \<open>a\<close>, \<open>b\<close>, \<open>a1\<close>, \<open>a2\<close> carry
  the prefix \<open>dev_\<close>. The array \<open>iv\<close> is a JavaScript object: a partial map from property
  keys to numbers, the key of \<open>iv[j]\<close> being the number \<open>j\<close>. A key that is absent reads
  as \<open>undefined\<close>, which every later use (\<open>AM*iy\<close>, \<open>iy/NDIV\<close>) converts to \<open>NaN\<close>.
\<close>

record Deviates =
  idum :: number
  iv :: "number \<rightharpoonup> number"
  normVal :: number
  dev_u :: number
  dev_s :: number
  dev_a :: number
  dev_b :: number
  dev_a1 :: number
  dev_a2 :: number

text \<open>The constructor.\<close>

definition Deviates_new :: Deviates where
  "Deviates_new =
     \<lparr> idum = Num 0, iv = Map.empty, normVal = Num 0, dev_u = Num 0, dev_s = Num 1,
       dev_a = Num 1, dev_b = Num 1, dev_a1 = Num 0, dev_a2 = Num 0 \<rparr>"

text \<open>Reading \<open>iv[j]\<close> into a number.\<close>

definition iv_get :: "(number \<rightharpoonup> number) \<Rightarrow> number \<Rightarrow> number" where
  "iv_get m j = (case m j of None \<Rightarrow> NaN | Some v \<Rightarrow> v)"

text \<open>
  \<open>this.iv.length = 0\<close> deletes the array elements: the properties whose key is an array
  index, an integer from \<open>0\<close> to \<open>2^32 - 2\<close>. Any other property of the object stays.
\<close>

fun is_index :: "number \<Rightarrow> bool" where
  "is_index (Num x) = (x = of_int \<lfloor>x\<rfloor> \<and> 0 \<le> x \<and> x \<le> 4294967294)"
| "is_index _ = False"

definition iv_clear :: "(number \<rightharpoonup> number) \<Rightarrow> (number \<rightharpoonup> number)" where
  "iv_clear m = (\<lambda>k. if is_index k then None else m k)"

section \<open>The uniform deviate\<close>

text \<open>
  The recurrence of Schrage, written out twice in \<open>uniform\<close> (in the warm-up loop and
  after it):
  \<^verbatim>\<open>k = Math.floor(idum/IQ); idum = IA*(idum - k*IQ) - IR*k; if (idum < 0) idum += IM;\<close>
\<close>

definition schrage :: "number \<Rightarrow> number" where
  "schrage x =
     (let k = nfloor (ndiv x IQ);
          y = nsub (nmul IA (nsub x (nmul k IQ))) (nmul IR k)
      in if nlt y (Num 0) then nadd y IM else y)"

text \<open>One pass of the body of the warm-up loop, at loop index \<open>j\<close>.\<close>

definition warm_body :: "nat \<Rightarrow> Deviates \<Rightarrow> Deviates" where
  "warm_body j st =
     (let st1 = st\<lparr>idum := schrage (idum st)\<rparr>
      in if j < NTAB then st1\<lparr>iv := (iv st1)(Num (real j) \<mapsto> idum st1)\<rparr> else st1)"

text \<open>\<open>for (j = n; j >= 0; j--)\<close>: the body runs at \<open>n\<close>, \<open>n - 1\<close>, ..., \<open>0\<close>.\<close>

fun warmup :: "nat \<Rightarrow> Deviates \<Rightarrow> Deviates" where
  "warmup 0 st = warm_body 0 st"
| "warmup (Suc j) st = warmup j (warm_body (Suc j) st)"

text \<open>
  The branch \<open>if (init) { ... }\<close>: it returns the state and the local \<open>iy\<close>. The seed is
  taken by \<open>isNaN(start) && start < 1 ? 1 : start\<close>.
\<close>

definition uniform_init :: "Deviates \<Rightarrow> number \<Rightarrow> Deviates \<times> number" where
  "uniform_init st start =
     (let st0 = st\<lparr>iv := iv_clear (iv st)\<rparr>;
          st1 = st0\<lparr>idum := (if isNaN start \<and> nlt start (Num 1) then Num 1 else start)\<rparr>;
          st2 = warmup (NTAB + 7) st1
      in (st2, iv_get (iv st2) (Num 0)))"

text \<open>
  The local \<open>iy\<close> at the end of the optional initialisation: it is declared in
  \<open>uniform\<close> as \<open>let iy = 0\<close>, so a call with \<open>init = false\<close> starts from 0.
\<close>

definition uniform_carry :: "Deviates \<Rightarrow> number \<Rightarrow> bool \<Rightarrow> Deviates \<times> number" where
  "uniform_carry st start init = (if init then uniform_init st start else (st, Num 0))"

text \<open>
  The rest of \<open>uniform\<close>, up to the read of the table: the slot \<open>j\<close> that is used, the
  value \<open>iy\<close> read from it and the state after the write.
\<close>

definition uniform_step :: "Deviates \<Rightarrow> number \<Rightarrow> bool \<Rightarrow> number \<times> number \<times> Deviates" where
  "uniform_step st start init =
     (let (st1, iy) = uniform_carry st start init;
          st2 = st1\<lparr>idum := schrage (idum st1)\<rparr>;
          j = nfloor (ndiv iy NDIV);
          iy' = iv_get (iv st2) j;
          st3 = st2\<lparr>iv := (iv st2)(j \<mapsto> idum st2)\<rparr>
      in (j, iy', st3))"

definition uniform :: "Deviates \<Rightarrow> number \<Rightarrow> bool \<Rightarrow> number \<times> Deviates" where
  "uniform st start init =
     (let (j, iy, st') = uniform_step st start init;
          temp = nmul AM iy
      in (if ngt temp RNMX then RNMX else temp, st'))"

section \<open>The normal, gamma and logistic deviates\<close>

text \<open>
  The rejection loops of the transforms have no bound on their number of passes, so each
  is a partial function: \<open>None\<close> is a loop that never ends.
\<close>

text \<open>
  The prologue \<open>if (init) { this.u = ...; this.s = ...; }\<close>, the same in \<open>normal\<close> and
  in \<open>logistic\<close>:
  \<^verbatim>\<open>this.u = isNaN(mu) || mu < 0 ? 0.0 : mu; this.s = isNaN(sig) || sig > 0 ? sig : 1.0;\<close>
\<close>

definition set_mean_sd :: "Deviates \<Rightarrow> number \<Rightarrow> number \<Rightarrow> bool \<Rightarrow> Deviates" where
  "set_mean_sd st mu sig init =
     (if init
      then st\<lparr>dev_u := (if isNaN mu \<or> nlt mu (Num 0) then Num 0 else mu),
              dev_s := (if isNaN sig \<or> ngt sig (Num 0) then sig else Num 1)\<rparr>
      else st)"

text \<open>
  \<open>while (rsq >= 1.0 || rsq === 0.0) { v1 = ...; v2 = ...; rsq = v1*v1 + v2*v2; }\<close>
  The locals \<open>v1\<close> and \<open>v2\<close> are not initialised; the loop is entered with
  \<open>rsq = 0.0\<close>, so they are always assigned.
\<close>

partial_function (option) normal_loop ::
  "Deviates \<Rightarrow> number \<Rightarrow> bool \<Rightarrow> number \<Rightarrow> number \<Rightarrow> number
     \<Rightarrow> (number \<times> number \<times> number \<times> Deviates) option" where
  "normal_loop st start init v1 v2 rsq =
     (if nge rsq (Num 1) \<or> nseq rsq (Num 0)
      then (let (x1, st1) = uniform st start init;
                v1' = nsub (nmul (Num 2) x1) (Num 1);
                (x2, st2) = uniform st1 start init;
                v2' = nsub (nmul (Num 2) x2) (Num 1);
                rsq' = nadd (nmul v1' v1') (nmul v2' v2')
            in normal_loop st2 start init v1' v2' rsq')
      else Some (v1, v2, rsq, st))"

text \<open>
  \<open>normal\<close>: the cache \<open>normVal\<close> is empty when it is \<open>=== 0.0\<close>; then a pair is
  drawn, \<open>v1*fac\<close> is cached and \<open>u + s*v2*fac\<close> returned. Otherwise the cached value
  is returned and the cache set to \<open>0.0\<close>.
\<close>

definition normal :: "Deviates \<Rightarrow> number \<Rightarrow> number \<Rightarrow> number \<Rightarrow> bool \<Rightarrow> (number \<times> Deviates) option" where
  "normal st start mu sig init =
     (let st0 = set_mean_sd st mu sig init
      in if nseq (normVal st0) (Num 0)
         then (case normal_loop st0 start init NaN NaN (Num 0) of
                 None \<Rightarrow> None
               | Some (v1, v2, rsq, st1) \<Rightarrow>
                   (let fac = nsqrt (ndiv (nmul (Num (- 2)) (nlog rsq)) rsq)
                    in Some (nadd (dev_u st1) (nmul (nmul (dev_s st1) v2) fac),
                             st1\<lparr>normVal := nmul v1 fac\<rparr>)))
         else Some (nadd (dev_u st0) (nmul (dev_s st0) (normVal st0)),
                    st0\<lparr>normVal := Num 0\<rparr>))"

text \<open>The inner loop of \<open>gamma\<close>: \<open>while (v <= 0.0) { x = uniform(); v = 1.0 + a2*x; }\<close>.\<close>

partial_function (option) gamma_draw ::
  "Deviates \<Rightarrow> number \<Rightarrow> bool \<Rightarrow> number \<Rightarrow> number \<Rightarrow> (number \<times> number \<times> Deviates) option" where
  "gamma_draw st start init x v =
     (if nle v (Num 0)
      then (let (x', st') = uniform st start init
            in gamma_draw st' start init x' (nadd (Num 1) (nmul (dev_a2 st') x')))
      else Some (x, v, st))"

text \<open>
  The outer loop of \<open>gamma\<close>, on the locals \<open>u\<close>, \<open>v\<close>, \<open>x\<close>, \<open>xSQ\<close>. Its test:
  \<^verbatim>\<open>u > 1.0 - xSQ*xSQ && Math.log(u) > 0.5*xSQ + this.a1*(1.0 - v + Math.log(v))\<close>
\<close>

definition gamma_test :: "Deviates \<Rightarrow> number \<Rightarrow> number \<Rightarrow> number \<Rightarrow> bool" where
  "gamma_test st u v xSQ =
     (ngt u (nsub (Num 1) (nmul xSQ xSQ))
      \<and> ngt (nlog u)
            (nadd (nmul (Num (1 / 2)) xSQ)
                  (nmul (dev_a1 st) (nadd (nsub (Num 1) v) (nlog v)))))"

text \<open>
  One pass of its body: the inner loop, \<open>v = v*v*v\<close>, \<open>u = uniform()\<close>, \<open>xSQ = x*x\<close>.
  It returns the new \<open>u\<close>, \<open>v\<close>, \<open>x\<close>, \<open>xSQ\<close> and the state.
\<close>

definition gamma_body ::
  "Deviates \<Rightarrow> number \<Rightarrow> bool \<Rightarrow> number \<Rightarrow> number
     \<Rightarrow> (number \<times> number \<times> number \<times> number \<times> Deviates) option" where
  "gamma_body st start init x v =
     Option.bind (gamma_draw st start init x v)
       (\<lambda>(x', v', st1).
          let v'' = nmul (nmul v' v') v';
              (u', st2) = uniform st1 start init
          in Some (u', v'', x', nmul x' x', st2))"

text \<open>The loop returns the last \<open>v\<close>.\<close>

partial_function (option) gamma_loop ::
  "Deviates \<Rightarrow> number \<Rightarrow> bool \<Rightarrow> number \<Rightarrow> number \<Rightarrow> number \<Rightarrow> number
     \<Rightarrow> (number \<times> Deviates) option" where
  "gamma_loop st start init u v x xSQ =
     (if gamma_test st u v xSQ
      then Option.bind (gamma_body st start init x v)
             (\<lambda>(u', v', x', xSQ', st'). gamma_loop st' start init u' v' x' xSQ')
      else Some (v, st))"

text \<open>The prologue of \<open>gamma\<close>, taken when \<open>start\<close> is truthy (\<open>if (start)\<close>).\<close>

definition gamma_params :: "Deviates \<Rightarrow> number \<Rightarrow> number \<Rightarrow> number \<Rightarrow> Deviates" where
  "gamma_params st start alpha beta =
     (if truthy start
      then (let a0 = (if isNaN alpha \<or> nle alpha (Num 0) then Num 1 else alpha);
                a' = (if nlt a0 (Num 1) then nadd a0 (Num 1) else a0);
                b' = (if isNaN beta \<or> nlt beta (Num (1 / 10000)) then Num (1 / 2) else beta);
                a1' = nsub a' (ndiv (Num 1) (Num 3));
                a2' = ndiv (Num 1) (nsqrt (nmul (Num 9) a1'))
            in st\<lparr>dev_a := a', dev_b := b', dev_a1 := a1', dev_a2 := a2'\<rparr>)
      else st)"

definition gamma :: "Deviates \<Rightarrow> number \<Rightarrow> number \<Rightarrow> number \<Rightarrow> bool \<Rightarrow> (number \<times> Deviates) option" where
  "gamma st start alpha beta init =
     Option.bind (gamma_loop (gamma_params st start alpha beta) start init
                    (Num 10) (Num 0) (Num 0) (Num 0))
       (\<lambda>(v, st'). Some (ndiv (nmul (dev_a1 st') v) (dev_b st'), st'))"

text \<open>\<open>logistic\<close>: \<open>while (v*(1.0-v) == 0.0) v = uniform();\<close> from \<open>v = 0.0\<close>.\<close>

partial_function (option) logistic_loop ::
  "Deviates \<Rightarrow> number \<Rightarrow> bool \<Rightarrow> number \<Rightarrow> (number \<times> Deviates) option" where
  "logistic_loop st start init v =
     (if nseq (nmul v (nsub (Num 1) v)) (Num 0)
      then (let (v', st') = uniform st start init in logistic_loop st' start init v')
      else Some (v, st))"

definition logistic :: "Deviates \<Rightarrow> number \<Rightarrow> number \<Rightarrow> number \<Rightarrow> bool \<Rightarrow> (number \<times> Deviates) option" where
  "logistic st start mu sig init =
     Option.bind (logistic_loop (set_mean_sd st mu sig init) start init (Num 0))
       (\<lambda>(v, st').
          Some (nadd (dev_u st')
                  (nmul (nmul (Num (551328895421792050 / 1000000000000000000)) (dev_s st'))
                        (nlog (ndiv v (nsub (Num 1) v)))), st'))"

section \<open>Sequences of calls\<close>

text \<open>
  A sequence of calls of \<open>uniform\<close> on one instance, each with its \<open>start\<close> and
  \<open>init\<close>: the list of the values returned.
\<close>

fun uniform_calls :: "Deviates \<Rightarrow> (number \<times> bool) list \<Rightarrow> number list" where
  "uniform_calls st [] = []"
| "uniform_calls st ((start, init) # cs) =
     (let (v, st') = uniform st start init in v # uniform_calls st' cs)"

text \<open>
  A start value that is an integer from 1 to \<open>hi\<close>, and a sequence of calls whose
  initialising calls all have such a start value.
\<close>

fun is_seed :: "int \<Rightarrow> number \<Rightarrow> bool" where
  "is_seed hi (Num x) = (x = of_int \<lfloor>x\<rfloor> \<and> 1 \<le> x \<and> x \<le> of_int hi)"
| "is_seed hi _ = False"

definition valid_calls :: "int \<Rightarrow> (number \<times> bool) list \<Rightarrow> bool" where
  "valid_calls hi cs = list_all (\<lambda>(start, init). init \<longrightarrow> is_seed hi start) cs"

section \<open>The recurrence on integers\<close>

text \<open>
  On an integer state the recurrence is computed in integers; \<open>schrage_int\<close> is that
  computation, used in the proofs below.
\<close>

definition schrage_int :: "int \<Rightarrow> int" where
  "schrage_int x =
     (let k = x div 127773; y = 16807 * (x - k * 127773) - 2836 * k
      in if y < 0 then y + 2147483647 else y)"

text \<open>
  The invariants of the proofs. A state is \<open>seeded\<close> when its seed and slot 0 of its
  table are integers in \<open>[lo, IM)\<close>; a start value is \<open>seed_good\<close> when every iterate
  of the recurrence from the fifth on lies there; a returned value is \<open>good\<close> when it is
  in \<open>[0, 1)\<close>, at most \<open>RNMX\<close>, and positive if \<open>lo\<close> is 1.
\<close>

definition seeded :: "int \<Rightarrow> Deviates \<Rightarrow> bool" where
  "seeded lo st =
     (\<exists>i t. idum st = Num (of_int i) \<and> lo \<le> i \<and> i < 2147483647
          \<and> iv st (Num 0) = Some (Num (of_int t)) \<and> lo \<le> t \<and> t < 2147483647)"

definition seed_good :: "int \<Rightarrow> number \<Rightarrow> bool" where
  "seed_good lo start =
     (\<exists>s. start = Num (of_int s)
          \<and> (\<forall>n\<ge>5. lo \<le> (schrage_int ^^ n) s \<and> (schrage_int ^^ n) s < 2147483647))"

definition good :: "int \<Rightarrow> number \<Rightarrow> bool" where
  "good lo v = (nle (Num 0) v \<and> nle v RNMX \<and> nlt v (Num 1) \<and> (1 \<le> lo \<longrightarrow> nlt (Num 0) v))"

text \<open>
  A state whose seed and table entries are all integers: the fresh state is one, and
  \<open>uniform\<close> keeps it so when every initialising call has an integer start value. A value
  \<open>uniform\<close> returns from such a state is \<open>NaN\<close> (a slot never written) or
  \<open>min (t / IM) RNMX\<close> for an integer \<open>t\<close>.
\<close>

fun is_int :: "number \<Rightarrow> bool" where
  "is_int (Num x) = (x = of_int \<lfloor>x\<rfloor>)"
| "is_int _ = False"

definition int_state :: "Deviates \<Rightarrow> bool" where
  "int_state st = (is_int (idum st) \<and> (\<forall>k v. iv st k = Some v \<longrightarrow> is_int v))"

definition int_draw :: "number \<Rightarrow> bool" where
  "int_draw v =
     (v = NaN \<or> (\<exists>t::int. v = Num (min (of_int t / 2147483647) (1 - 12 / 100000000))))"

text \<open>
  What the loop of \<open>normal\<close> guarantees when it ends, from a state of integers: the
  \<open>v1\<close> it leaves is not 0, \<open>rsq\<close> passed the test of the loop, and the cache and
  the parameters are untouched.
\<close>

definition loop_post ::
  "Deviates \<Rightarrow> number \<Rightarrow> bool \<Rightarrow> number \<Rightarrow> number \<Rightarrow> number
     \<Rightarrow> number \<times> number \<times> number \<times> Deviates \<Rightarrow> bool" where
  "loop_post st start init v1 v2 rsq y =
     (int_state st \<longrightarrow> (init \<longrightarrow> is_int start) \<longrightarrow>
      (nge rsq (Num 1) \<or> nseq rsq (Num 0) \<or> v1 \<noteq> Num 0) \<longrightarrow>
      (case y of (w1, w2, q, st') \<Rightarrow>
         w1 \<noteq> Num 0 \<and> \<not> nge q (Num 1) \<and> \<not> nseq q (Num 0) \<and> int_state st'
         \<and> normVal st' = normVal st \<and> dev_u st' = dev_u st \<and> dev_s st' = dev_s st))"

text \<open>
  The loop of \<open>normal\<close> cannot end from a pass it enters with seed 7 and \<open>init\<close>:
  the predicate of the induction that shows it.
\<close>

definition never_7 ::
  "Deviates \<Rightarrow> number \<Rightarrow> bool \<Rightarrow> number \<Rightarrow> number \<Rightarrow> number
     \<Rightarrow> number \<times> number \<times> number \<times> Deviates \<Rightarrow> bool" where
  "never_7 st start init v1 v2 rsq y =
     (\<not> (start = Num 7 \<and> init \<and> (nge rsq (Num 1) \<or> nseq rsq (Num 0))))"

section \<open>Evaluation lemmas\<close>

lemmas static_defs =
  IA_def IM_def AM_def IQ_def IR_def NTAB_def NDIV_def EPS_def RNMX_def nsub_def ngt_def nge_def

lemma schrage_Num:
  "schrage (Num x) =
     (let k = of_int \<lfloor>x / 127773\<rfloor>; y = 16807 * (x - k * 127773) - 2836 * k
      in if y < 0 then Num (y + 2147483647) else Num y)"
  by (simp add: schrage_def static_defs Let_def)

lemma funpow_numeral_unfold: "(f ^^ numeral k) x = f ((f ^^ pred_numeral k) x)"
  by (simp add: numeral_eq_Suc)

lemma init_seed: "(if isNaN start \<and> nlt start (Num 1) then Num 1 else start) = start"
  by (cases start) auto

section \<open>Range of the recurrence\<close>

lemma schrage_of_int: "schrage (Num (of_int x)) = Num (of_int (schrage_int x))"
proof -
  have "\<lfloor>real_of_int x / 127773\<rfloor> = x div 127773"
    using floor_divide_of_int_eq [of x 127773] by simp
  then show ?thesis
    by (simp add: schrage_Num schrage_int_def Let_def)
qed

lemma schrage_int_kr:
  "schrage_int x =
     (if 16807 * (x mod 127773) - 2836 * (x div 127773) < 0
      then 16807 * (x mod 127773) - 2836 * (x div 127773) + 2147483647
      else 16807 * (x mod 127773) - 2836 * (x div 127773))"
proof -
  have "x - x div 127773 * 127773 = x mod 127773"
    by (simp add: minus_div_mult_eq_mod)
  then show ?thesis
    unfolding schrage_int_def Let_def by (simp only:)
qed

lemma mod_Q: "0 \<le> (x::int) mod 127773" "(x::int) mod 127773 \<le> 127772"
  by simp_all

lemma schrage_int_upper: "0 \<le> x \<Longrightarrow> schrage_int x < 2147483647"
proof -
  assume "0 \<le> x"
  then have "0 \<le> x div 127773" by (simp add: pos_imp_zdiv_nonneg_iff)
  then show ?thesis
    using mod_Q [of x] unfolding schrage_int_kr by (simp only: split: if_split) linarith
qed

lemma schrage_int_lower:
  assumes "0 \<le> x" "x \<le> c"
  shows "min 0 (2147483647 - 2836 * (c div 127773)) \<le> schrage_int x"
proof -
  have "x div 127773 \<le> c div 127773" using assms by (simp add: zdiv_mono1)
  then show ?thesis
    using mod_Q [of x] unfolding schrage_int_kr min_def by (simp only: split: if_split) linarith
qed

lemma schrage_int_neg:
  assumes "x < 0" "- c \<le> x"
  shows "0 < schrage_int x \<and> schrage_int x \<le> 16807 * 127772 - 2836 * ((- c) div 127773)"
proof -
  have "(- c) div 127773 \<le> x div 127773" using assms by (simp add: zdiv_mono1)
  moreover have "x div 127773 < 0" using assms by (simp add: div_neg_pos_less0)
  ultimately show ?thesis
    using mod_Q [of x] unfolding schrage_int_kr by (simp only: split: if_split) linarith
qed

lemma coprime_step:
  assumes "16807 * (r::int) = 2836 * k" "0 \<le> k" "k \<le> 16807"
  shows "k = 0 \<or> k = 16807"
proof -
  define m where "m = - 977 * k + 5790 * r"
  have "5790 * (16807 * r) = 5790 * (2836 * k)" using assms(1) by simp
  then have "k = 16807 * m" unfolding m_def by (simp add: algebra_simps)
  with assms(2,3) show ?thesis by auto
qed


lemma schrage_int_closed:
  assumes "0 \<le> x" "x < 2147483647"
  shows "0 \<le> schrage_int x \<and> schrage_int x < 2147483647"
  using schrage_int_upper [of x] schrage_int_lower [of x 2147483646] assms by simp

lemma schrage_int_pos:
  assumes "1 \<le> x" "x < 2147483647"
  shows "1 \<le> schrage_int x"
proof -
  define k where "k = x div 127773"
  define r where "r = x mod 127773"
  have x: "x = k * 127773 + r" by (simp add: k_def r_def)
  have r: "0 \<le> r" "r \<le> 127772" by (simp_all add: r_def)
  have k0: "0 \<le> k" using assms by (simp add: k_def pos_imp_zdiv_nonneg_iff)
  have "x div 127773 \<le> 2147483646 div 127773" using assms by (intro zdiv_mono1) simp_all
  then have k1: "k \<le> 16807" by (simp add: k_def)
  have f: "schrage_int x =
     (if 16807 * r - 2836 * k < 0 then 16807 * r - 2836 * k + 2147483647
      else 16807 * r - 2836 * k)"
    unfolding schrage_int_kr k_def r_def by simp
  show ?thesis
  proof (cases "16807 * r - 2836 * k < 0")
    case True
    then show ?thesis using f r k0 k1 by simp
  next
    case False
    have "16807 * r \<noteq> 2836 * k"
    proof
      assume e: "16807 * r = 2836 * k"
      from coprime_step [OF e k0 k1] show False
      proof
        assume "k = 0"
        with e x assms show False by simp
      next
        assume "k = 16807"
        with e x assms show False by simp
      qed
    qed
    with False show ?thesis using f by simp
  qed
qed

lemma schrage_int_iter_closed:
  "0 \<le> x \<Longrightarrow> x < 2147483647 \<Longrightarrow>
     0 \<le> (schrage_int ^^ n) x \<and> (schrage_int ^^ n) x < 2147483647"
  by (induction n) (simp_all add: schrage_int_closed)

lemma schrage_int_iter_pos:
  "1 \<le> x \<Longrightarrow> x < 2147483647 \<Longrightarrow>
     1 \<le> (schrage_int ^^ n) x \<and> (schrage_int ^^ n) x < 2147483647"
proof (induction n)
  case 0
  then show ?case by simp
next
  case (Suc n)
  then show ?case
    using schrage_int_pos [of "(schrage_int ^^ n) x"] schrage_int_upper [of "(schrage_int ^^ n) x"]
    by simp
qed

lemma safe_seed_two_steps:
  assumes "- c \<le> x" "x < 2147483647"
    and "16807 * 127772 - 2836 * ((- c) div 127773) \<le> d" "0 \<le> c"
  shows "min 0 (2147483647 - 2836 * (d div 127773)) \<le> schrage_int (schrage_int x)
         \<and> schrage_int (schrage_int x) < 2147483647"
proof (cases "x < 0")
  case True
  from schrage_int_neg [OF True assms(1)] assms(3)
  have "0 \<le> schrage_int x" "schrage_int x \<le> d" by simp_all
  then show ?thesis
    using schrage_int_lower [of "schrage_int x" d] schrage_int_upper [of "schrage_int x"] by simp
next
  case False
  then have a: "0 \<le> schrage_int x \<and> schrage_int x < 2147483647"
    using schrage_int_closed [of x] assms(2) by simp
  then have "0 \<le> schrage_int (schrage_int x) \<and> schrage_int (schrage_int x) < 2147483647"
    using schrage_int_closed [of "schrage_int x"] by simp
  then show ?thesis by (simp add: min_def)
qed

lemma safe_seed_5:
  assumes "0 \<le> s" "s \<le> 9007199254740991"
  shows "0 \<le> (schrage_int ^^ 5) s \<and> (schrage_int ^^ 5) s < 2147483647"
proof -
  define x1 where "x1 = schrage_int s"
  define x3 where "x3 = schrage_int (schrage_int x1)"
  define x5 where "x5 = schrage_int (schrage_int x3)"
  have "min 0 (2147483647 - 2836 * (9007199254740991 div 127773)) \<le> x1"
    unfolding x1_def using assms by (rule schrage_int_lower)
  then have a1: "- 199918157166733 \<le> x1" by simp
  have b1: "x1 < 2147483647" unfolding x1_def using assms(1) by (rule schrage_int_upper)
  have "min 0 (2147483647 - 2836 * (4439453418700 div 127773)) \<le> x3 \<and> x3 < 2147483647"
    unfolding x3_def using a1 b1 by (rule safe_seed_two_steps) simp_all
  then have a3: "- 96388902445 \<le> x3" and b3: "x3 < 2147483647" by simp_all
  have "min 0 (2147483647 - 2836 * (4286877176 div 127773)) \<le> x5 \<and> x5 < 2147483647"
    unfolding x5_def using a3 b3 by (rule safe_seed_two_steps) simp_all
  then have "0 \<le> x5 \<and> x5 < 2147483647" by simp
  moreover have "(schrage_int ^^ 5) s = x5"
    by (simp add: x5_def x3_def x1_def funpow_numeral_unfold)
  ultimately show ?thesis by simp
qed

lemma safe_seed_iter:
  assumes "0 \<le> s" "s \<le> 9007199254740991" "5 \<le> n"
  shows "0 \<le> (schrage_int ^^ n) s \<and> (schrage_int ^^ n) s < 2147483647"
proof -
  from assms(3) obtain m where n: "n = m + 5" by (metis le_add_diff_inverse2)
  have "(schrage_int ^^ n) s = (schrage_int ^^ m) ((schrage_int ^^ 5) s)"
    unfolding n by (simp only: funpow_add o_apply)
  then show ?thesis
    using schrage_int_iter_closed [of "(schrage_int ^^ 5) s" m] safe_seed_5 [OF assms(1,2)]
    by simp
qed

lemma schrage_funpow_of_int:
  "(schrage ^^ n) (Num (of_int x)) = Num (of_int ((schrage_int ^^ n) x))"
  by (induction n) (simp_all add: schrage_of_int)

section \<open>The warm-up loop\<close>

lemma warm_body_idum: "idum (warm_body j st) = schrage (idum st)"
  by (simp add: warm_body_def Let_def)

lemma warm_body_iv:
  "iv (warm_body j st) k =
     (if j < NTAB \<and> k = Num (real j) then Some (schrage (idum st)) else iv st k)"
  by (simp add: warm_body_def Let_def)

lemma warmup_idum: "idum (warmup n st) = (schrage ^^ Suc n) (idum st)"
  by (induction n arbitrary: st) (simp_all add: warm_body_idum funpow_swap1)

lemma warmup_iv_slot:
  "iv (warmup n st) (Num (real j)) =
     (if j \<le> n \<and> j < NTAB then Some ((schrage ^^ (Suc n - j)) (idum st))
      else iv st (Num (real j)))"
proof (induction n arbitrary: st)
  case 0
  then show ?case by (auto simp: warm_body_iv)
next
  case (Suc n)
  show ?case
  proof (cases "j = Suc n")
    case True
    then show ?thesis
      using Suc [of "warm_body (Suc n) st"]
      by (simp add: warm_body_iv warm_body_idum del: of_nat_Suc)
  next
    case False
    then show ?thesis
      by (auto simp: Suc warm_body_iv warm_body_idum Suc_diff_le funpow_Suc_right
          simp del: funpow.simps of_nat_Suc)
  qed
qed

lemma warmup_iv_0: "iv (warmup n st) (Num 0) = Some ((schrage ^^ Suc n) (idum st))"
  using warmup_iv_slot [of n st 0] by (simp add: NTAB_def del: funpow.simps)

text \<open>
  C3, as the code has it. The loop \<open>for (j = NTAB+7; j >= 0; j--)\<close> runs its body at
  \<open>j = 39, 38, ..., 0\<close>: the recurrence is applied 40 times (8 warm-ups and 32 table
  entries), whatever the start value and the prior state. Slot \<open>j\<close> of the table holds
  iterate \<open>40 - j\<close>, so the table is filled by the last 32 iterations, and the carry
  \<open>iy\<close> is slot 0, the 40th iterate.
\<close>

theorem uniform_init_runs_40:
  "idum (fst (uniform_init st start)) = (schrage ^^ 40) start
   \<and> map (\<lambda>j. iv (fst (uniform_init st start)) (Num (real j))) [0..<32]
       = map (\<lambda>j. Some ((schrage ^^ (40 - j)) start)) [0..<32]
   \<and> snd (uniform_init st start) = (schrage ^^ 40) start"
  by (simp add: uniform_init_def Let_def init_seed warmup_idum warmup_iv_slot warmup_iv_0
      iv_get_def NTAB_def del: funpow.simps upt.simps of_nat_Suc)

text \<open>
  C3 as stated fails: with seed 1 the seed left by the initialisation is not the 39th
  iterate of the recurrence.
\<close>

theorem uniform_init_not_39:
  "idum (fst (uniform_init Deviates_new (Num 1))) \<noteq> (schrage ^^ 39) (Num 1)"
proof -
  have a: "(schrage ^^ 39) (Num 1) = Num 2128236579"
    by (simp add: funpow_numeral_unfold schrage_Num Let_def)
  have b: "(schrage ^^ 40) (Num 1) = Num 784558821"
    by (simp add: funpow_numeral_unfold schrage_Num Let_def)
  have "idum (fst (uniform_init Deviates_new (Num 1))) = (schrage ^^ 40) (Num 1)"
    by (simp add: uniform_init_def Let_def warmup_idum NTAB_def del: funpow.simps)
  with a b show ?thesis by simp
qed

text \<open>
  C10. On a freshly constructed instance a call of \<open>uniform\<close> with \<open>init = false\<close>
  reads slot 0 of the empty table and returns \<open>NaN\<close>, whatever \<open>start\<close> is.
\<close>

theorem uniform_fresh_no_init_NaN: "fst (uniform Deviates_new start False) = NaN"
  by (simp add: uniform_def uniform_step_def uniform_carry_def Deviates_new_def iv_get_def
      static_defs Let_def split: prod.splits)

section \<open>The values returned by uniform\<close>

lemma NDIV_val: "NDIV = Num (1073741839 / 16)"
  by (simp add: static_defs)

lemma slot_of_int:
  assumes "0 \<le> t" "t < 2147483647"
  shows "nfloor (ndiv (Num (of_int t)) NDIV) = Num (real (nat (16 * t div 1073741839)))
         \<and> nat (16 * t div 1073741839) < 32"
proof -
  have "real_of_int t / (1073741839 / 16) = real_of_int (16 * t) / real_of_int 1073741839"
    by simp
  then have "\<lfloor>real_of_int t / (1073741839 / 16)\<rfloor> = 16 * t div 1073741839"
    by (simp only: floor_divide_of_int_eq)
  moreover have "0 \<le> 16 * t div 1073741839"
    using assms by (simp add: pos_imp_zdiv_nonneg_iff)
  moreover have "16 * t div 1073741839 < 32"
    using assms by (simp add: div_less_iff_less_mult)
  ultimately show ?thesis
    by (simp add: NDIV_val)
qed

lemma is_seed_int:
  assumes "is_seed hi start"
  obtains s where "start = Num (of_int s)" "1 \<le> s" "s \<le> hi"
proof (cases start)
  case (Num x)
  with assms have "x = of_int \<lfloor>x\<rfloor>" "1 \<le> x" "x \<le> of_int hi" by simp_all
  then have "start = Num (of_int \<lfloor>x\<rfloor>)" "1 \<le> \<lfloor>x\<rfloor>" "\<lfloor>x\<rfloor> \<le> hi"
    using Num by (simp_all add: le_floor_iff)
  then show ?thesis using that by blast
qed (use assms in simp_all)


lemma uniform_init_idum: "idum (fst (uniform_init st start)) = (schrage ^^ 40) start"
  by (simp add: uniform_init_def Let_def init_seed warmup_idum NTAB_def del: funpow.simps)

lemma uniform_init_iv:
  "iv (fst (uniform_init st start)) (Num (real j)) =
     (if j < 32 then Some ((schrage ^^ (40 - j)) start) else iv_clear (iv st) (Num (real j)))"
  by (simp add: uniform_init_def Let_def init_seed warmup_iv_slot NTAB_def
      del: funpow.simps of_nat_Suc)

lemma uniform_init_carry: "snd (uniform_init st start) = (schrage ^^ 40) start"
  by (simp add: uniform_init_def Let_def init_seed warmup_iv_0 iv_get_def NTAB_def
      del: funpow.simps)

lemma uniform_step_False:
  "uniform_step st start False =
     (Num 0, iv_get (iv st) (Num 0),
      st\<lparr>idum := schrage (idum st), iv := (iv st)(Num 0 \<mapsto> schrage (idum st))\<rparr>)"
  by (simp add: uniform_step_def uniform_carry_def NDIV_val Let_def)

lemma uniform_step_True:
  "uniform_step st start True =
     (let st1 = fst (uniform_init st start);
          x = (schrage ^^ 40) start;
          j = nfloor (ndiv x NDIV)
      in (j, iv_get (iv st1) j, st1\<lparr>idum := schrage x, iv := (iv st1)(j \<mapsto> schrage x)\<rparr>))"
proof (cases "uniform_init st start")
  case (Pair st1 iy)
  with uniform_init_idum [of st start] uniform_init_carry [of st start]
  have "idum st1 = (schrage ^^ 40) start" "iy = (schrage ^^ 40) start" by simp_all
  with Pair show ?thesis
    by (simp add: uniform_step_def uniform_carry_def Let_def del: funpow.simps)
qed

text \<open>The value returned for a table entry iy.\<close>

lemma uniform_eq:
  "uniform st start init =
     (let (j, iy, st') = uniform_step st start init
      in (if ngt (nmul AM iy) RNMX then RNMX else nmul AM iy, st'))"
  by (simp add: uniform_def Let_def)

lemma scale_Num:
  "(if ngt (nmul AM (Num x)) RNMX then RNMX else nmul AM (Num x)) =
     Num (min (x / 2147483647) (1 - 12 / 100000000))"
  by (simp add: static_defs min_def)


lemma good_scale:
  assumes "lo \<le> t" "t < 2147483647" "0 \<le> lo"
  shows "good lo (Num (min (of_int t / 2147483647) (1 - 12 / 100000000)))"
  using assms by (auto simp: good_def static_defs min_def)

lemma schrage_int_lo:
  assumes "lo \<le> x" "x < 2147483647" "0 \<le> lo" "lo \<le> 1"
  shows "lo \<le> schrage_int x \<and> schrage_int x < 2147483647"
  using assms schrage_int_closed [of x] schrage_int_pos [of x] by (cases "lo = 0") auto

lemma uniform_False_seeded:
  assumes "seeded lo st" "0 \<le> lo" "lo \<le> 1"
  shows "good lo (fst (uniform st start False)) \<and> seeded lo (snd (uniform st start False))"
proof -
  from assms(1) obtain i t where
    i: "idum st = Num (of_int i)" "lo \<le> i" "i < 2147483647"
    and t: "iv st (Num 0) = Some (Num (of_int t))" "lo \<le> t" "t < 2147483647"
    unfolding seeded_def by blast
  have v: "fst (uniform st start False) = Num (min (of_int t / 2147483647) (1 - 12 / 100000000))"
    by (simp add: uniform_eq uniform_step_False iv_get_def t scale_Num)
  have st': "snd (uniform st start False) =
      st\<lparr>idum := Num (of_int (schrage_int i)), iv := (iv st)(Num 0 \<mapsto> Num (of_int (schrage_int i)))\<rparr>"
    by (simp add: uniform_eq uniform_step_False i schrage_of_int)
  from schrage_int_lo [OF i(2,3) assms(2,3)]
  have "seeded lo (snd (uniform st start False))"
    unfolding st' seeded_def by auto
  with v good_scale [OF t(2,3) assms(2)] show ?thesis by simp
qed

lemma uniform_True_explicit:
  assumes "0 \<le> (schrage_int ^^ 40) s" "(schrage_int ^^ 40) s < 2147483647"
  defines "n \<equiv> nat (16 * (schrage_int ^^ 40) s div 1073741839)"
  shows "fst (uniform st (Num (of_int s)) True) =
           Num (min (of_int ((schrage_int ^^ (40 - n)) s) / 2147483647) (1 - 12 / 100000000))"
    and "idum (snd (uniform st (Num (of_int s)) True)) = Num (of_int ((schrage_int ^^ 41) s))"
    and "iv (snd (uniform st (Num (of_int s)) True)) (Num 0) =
           Some (Num (of_int ((schrage_int ^^ (if n = 0 then 41 else 40)) s)))"
    and "n < 32"
proof -
  from slot_of_int [OF assms(1,2)]
  have j: "nfloor (ndiv (Num (of_int ((schrage_int ^^ 40) s))) NDIV) = Num (real n)" and n: "n < 32"
    by (simp_all add: n_def)
  show "n < 32" by (rule n)
  have rd: "iv_get (iv (fst (uniform_init st (Num (of_int s))))) (Num (real n))
      = Num (of_int ((schrage_int ^^ (40 - n)) s))"
    using n by (simp add: iv_get_def uniform_init_iv schrage_funpow_of_int del: funpow.simps)
  have s41: "schrage (Num (of_int ((schrage_int ^^ 40) s))) = Num (of_int ((schrage_int ^^ 41) s))"
    by (simp add: schrage_of_int funpow_numeral_unfold)
  show "fst (uniform st (Num (of_int s)) True) =
           Num (min (of_int ((schrage_int ^^ (40 - n)) s) / 2147483647) (1 - 12 / 100000000))"
    by (simp add: uniform_eq uniform_step_True Let_def schrage_funpow_of_int j rd scale_Num
        del: funpow.simps)
  show "idum (snd (uniform st (Num (of_int s)) True)) = Num (of_int ((schrage_int ^^ 41) s))"
    by (simp add: uniform_eq uniform_step_True Let_def schrage_funpow_of_int j s41
        del: funpow.simps)
  have z: "iv (fst (uniform_init st (Num (of_int s)))) (Num 0)
      = Some (Num (of_int ((schrage_int ^^ 40) s)))"
    using uniform_init_iv [of st "Num (of_int s)" 0]
    by (simp add: schrage_funpow_of_int del: funpow.simps)
  show "iv (snd (uniform st (Num (of_int s)) True)) (Num 0) =
           Some (Num (of_int ((schrage_int ^^ (if n = 0 then 41 else 40)) s)))"
    by (simp add: uniform_eq uniform_step_True Let_def schrage_funpow_of_int j s41 z
        del: funpow.simps)
qed


lemma uniform_True_seeded:
  assumes "seed_good lo start" "0 \<le> lo" "lo \<le> 1"
  shows "good lo (fst (uniform st start True)) \<and> seeded lo (snd (uniform st start True))"
proof -
  from assms(1) obtain s where s: "start = Num (of_int s)"
    and r: "\<And>n. 5 \<le> n \<Longrightarrow> lo \<le> (schrage_int ^^ n) s \<and> (schrage_int ^^ n) s < 2147483647"
    unfolding seed_good_def by blast
  define n where "n = nat (16 * (schrage_int ^^ 40) s div 1073741839)"
  have r40: "0 \<le> (schrage_int ^^ 40) s" "(schrage_int ^^ 40) s < 2147483647"
    using r [of 40] assms(2) by simp_all
  note e = uniform_True_explicit(1-3) [OF r40, of st, folded n_def]
  have "n < 32" using uniform_True_explicit(4) [OF r40] by (simp add: n_def)
  then have "5 \<le> 40 - n" by simp
  from r [OF this] have "good lo (fst (uniform st start True))"
    unfolding s e(1) using assms(2) by (intro good_scale) simp_all
  moreover have "seeded lo (snd (uniform st start True))"
    unfolding seeded_def s using e(2,3) r [of 41] r [of 40] by (cases "n = 0") auto
  ultimately show ?thesis by simp
qed

lemma is_seed_good_0:
  assumes "is_seed 9007199254740991 start"
  shows "seed_good 0 start"
proof -
  from assms obtain s where "start = Num (of_int s)" "1 \<le> s" "s \<le> 9007199254740991"
    by (rule is_seed_int)
  then show ?thesis
    unfolding seed_good_def using safe_seed_iter [of s] by auto
qed

lemma is_seed_good_1:
  assumes "is_seed 2147483646 start"
  shows "seed_good 1 start"
proof -
  from assms obtain s where "start = Num (of_int s)" "1 \<le> s" "s \<le> 2147483646"
    by (rule is_seed_int)
  then show ?thesis
    unfolding seed_good_def using schrage_int_iter_pos [of s] by auto
qed

lemma uniform_calls_good:
  assumes "list_all (\<lambda>(start, init). init \<longrightarrow> seed_good lo start) cs"
    and "seeded lo st \<or> (\<exists>start cs'. cs = (start, True) # cs')" "0 \<le> lo" "lo \<le> 1"
  shows "list_all (good lo) (uniform_calls st cs)"
  using assms(1,2)
proof (induction cs arbitrary: st)
  case Nil
  then show ?case by simp
next
  case (Cons c cs)
  obtain start init where c: "c = (start, init)" by (cases c)
  obtain v st' where u: "uniform st start init = (v, st')" by (cases "uniform st start init")
  have "good lo v \<and> seeded lo st'"
  proof (cases init)
    case True
    with Cons.prems(1) c have "seed_good lo start" by simp
    from uniform_True_seeded [OF this assms(3,4), of st] u True show ?thesis by simp
  next
    case False
    with Cons.prems(2) c have "seeded lo st" by simp
    from uniform_False_seeded [OF this assms(3,4), of start] u False show ?thesis by simp
  qed
  moreover from this Cons.prems(1) have "list_all (good lo) (uniform_calls st' cs)"
    by (intro Cons.IH) simp_all
  ultimately show ?case by (simp add: c u)
qed

lemma valid_calls_good_0:
  "valid_calls 9007199254740991 cs \<Longrightarrow> list_all (\<lambda>(start, init). init \<longrightarrow> seed_good 0 start) cs"
  unfolding valid_calls_def by (induction cs) (auto simp: is_seed_good_0)

lemma valid_calls_good_1:
  "valid_calls 2147483646 cs \<Longrightarrow> list_all (\<lambda>(start, init). init \<longrightarrow> seed_good 1 start) cs"
  unfolding valid_calls_def by (induction cs) (auto simp: is_seed_good_1)

text \<open>
  Where the bounds on the draws do hold. Take any prior state and any sequence of calls
  that starts with an initialising call and whose initialising calls all have an integer
  start value from 1 to \<open>2^53 - 1\<close>. Every value returned is a number \<open>v\<close> with
  \<open>0 <= v <= RNMX < 1\<close>. If all these start values are below \<open>IM = 2147483647\<close>,
  every value is positive too.
\<close>

theorem uniform_calls_in_unit_interval:
  assumes "valid_calls 9007199254740991 ((start, True) # cs)"
  shows "list_all (\<lambda>v. nle (Num 0) v \<and> nle v RNMX \<and> nlt v (Num 1))
           (uniform_calls st ((start, True) # cs))
       \<and> (valid_calls 2147483646 ((start, True) # cs) \<longrightarrow>
            list_all (\<lambda>v. nlt (Num 0) v) (uniform_calls st ((start, True) # cs)))"
proof -
  have "list_all (good 0) (uniform_calls st ((start, True) # cs))"
    using valid_calls_good_0 [OF assms] by (intro uniform_calls_good) simp_all
  then have a: "list_all (\<lambda>v. nle (Num 0) v \<and> nle v RNMX \<and> nlt v (Num 1))
           (uniform_calls st ((start, True) # cs))"
    unfolding good_def list_all_iff by simp
  have b: "list_all (\<lambda>v. nlt (Num 0) v) (uniform_calls st ((start, True) # cs))"
    if v: "valid_calls 2147483646 ((start, True) # cs)"
  proof -
    have "list_all (good 1) (uniform_calls st ((start, True) # cs))"
      using valid_calls_good_1 [OF v] by (intro uniform_calls_good) simp_all
    then show ?thesis unfolding good_def list_all_iff by simp
  qed
  from a b show ?thesis by blast
qed


text \<open>Its hypotheses hold for a run with two initialisations, seeds 1 and 7.\<close>

theorem uniform_calls_in_unit_interval_witness:
  "valid_calls 9007199254740991 [(Num 1, True), (Num 1, False), (Num 7, True), (Num 7, False)]
   \<and> valid_calls 2147483646 [(Num 1, True), (Num 1, False), (Num 7, True), (Num 7, False)]
   \<and> list_all (\<lambda>v. nle (Num 0) v \<and> nle v RNMX \<and> nlt v (Num 1))
         (uniform_calls Deviates_new [(Num 1, True), (Num 1, False), (Num 7, True), (Num 7, False)])
   \<and> list_all (\<lambda>v. nlt (Num 0) v)
         (uniform_calls Deviates_new [(Num 1, True), (Num 1, False), (Num 7, True), (Num 7, False)])"
proof -
  have a: "valid_calls 9007199254740991 [(Num 1, True), (Num 1, False), (Num 7, True), (Num 7, False)]"
    by (simp add: valid_calls_def)
  have b: "valid_calls 2147483646 [(Num 1, True), (Num 1, False), (Num 7, True), (Num 7, False)]"
    by (simp add: valid_calls_def)
  from uniform_calls_in_unit_interval [OF a, of Deviates_new] a b show ?thesis by blast
qed

lemma schrage_int_iter_0: "(schrage_int ^^ n) 0 = 0"
  by (induction n) (simp_all add: schrage_int_def)

lemma schrage_int_M: "schrage_int 2147483647 = 0"
  by (simp add: schrage_int_def)

text \<open>
  C4 fails on the code. The comment of \<open>uniform\<close> promises a deviate in \<open>(0,1)\<close>, and
  the claim says no value lies outside \<open>(0,1)\<close> for a seed \<open>s >= 1\<close>. The seed
  \<open>2147483647 = IM\<close> is mapped to 0 by the recurrence and stays 0, and the first draw
  of a fresh instance is 0.
\<close>

theorem uniform_seed_M_returns_0:
  "uniform_calls Deviates_new [(Num 2147483647, True)] = [Num 0]"
proof -
  have "(schrage_int ^^ Suc n) 2147483647 = 0" for n
    by (simp only: funpow_Suc_right o_apply schrage_int_M schrage_int_iter_0)
  then have z: "(schrage_int ^^ n) 2147483647 = 0" if "0 < n" for n
    using that by (cases n) simp_all
  have "fst (uniform Deviates_new (Num (of_int 2147483647)) True) = Num 0"
    by (subst uniform_True_explicit(1)) (simp_all add: z)
  then show ?thesis
    by (simp add: split_def Let_def)
qed

text \<open>
  C5 fails on the code. The test \<open>isNaN(start) && start < 1\<close> is never true, so the start
  value is always taken as it is (lemma \<open>init_seed\<close>). With \<open>start = 0\<close> the seed stays 0
  through the warm-up, the draw is 0 and the seed is still 0 afterwards; 1 was not
  substituted.
\<close>

theorem uniform_seed_0_kept:
  "idum (fst (uniform_init Deviates_new (Num 0))) = Num 0
   \<and> fst (uniform Deviates_new (Num 0) True) = Num 0
   \<and> idum (snd (uniform Deviates_new (Num 0) True)) = Num 0"
proof -
  have a: "(schrage ^^ n) (Num 0) = Num 0" for n
    using schrage_funpow_of_int [of n 0] by (simp add: schrage_int_iter_0)
  have "fst (uniform Deviates_new (Num (of_int 0)) True) = Num 0"
    by (subst uniform_True_explicit(1)) (simp_all add: schrage_int_iter_0)
  moreover have "idum (snd (uniform Deviates_new (Num (of_int 0)) True)) = Num 0"
    by (subst uniform_True_explicit(2)) (simp_all add: schrage_int_iter_0)
  ultimately show ?thesis
    by (simp add: uniform_init_idum a del: funpow.simps)
qed

section \<open>Reproducible sequences\<close>













lemma schrage_1_40: "(schrage ^^ 40) (Num 1) = Num 784558821"
  by (simp add: funpow_numeral_unfold schrage_Num Let_def)

lemma schrage_1_29: "(schrage ^^ 29) (Num 1) = Num 893351816"
  by (simp add: funpow_numeral_unfold schrage_Num Let_def)

text \<open>
  C2 fails on the code: \<open>iy\<close> is a local of \<open>uniform\<close> that starts at 0 in every call,
  so a call with \<open>init = false\<close> always uses slot 0 (lemma \<open>uniform_step_False\<close>). With
  seed 1 the initialising call uses slot 11 and reads \<open>iy = 893351816\<close>; the carry would
  select slot \<open>floor(893351816 / NDIV) = 13\<close> for the next call, which uses slot 0.
\<close>

theorem uniform_carry_not_kept:
  "uniform_step Deviates_new (Num 1) True
     = (Num 11, Num 893351816, snd (snd (uniform_step Deviates_new (Num 1) True)))
   \<and> nfloor (ndiv (Num 893351816) NDIV) = Num 13
   \<and> fst (uniform_step (snd (snd (uniform_step Deviates_new (Num 1) True))) (Num 1) False) = Num 0"
proof -
  have j: "nfloor (ndiv (Num 784558821) NDIV) = Num 11" by (simp add: NDIV_val)
  have rd: "iv_get (iv (fst (uniform_init Deviates_new (Num 1)))) (Num 11) = Num 893351816"
    using uniform_init_iv [of Deviates_new "Num 1" 11]
    by (simp add: iv_get_def schrage_1_29 del: funpow.simps)
  have "fst (uniform_step Deviates_new (Num 1) True) = Num 11"
    by (simp add: uniform_step_True Let_def schrage_1_40 j del: funpow.simps)
  moreover have "fst (snd (uniform_step Deviates_new (Num 1) True)) = Num 893351816"
    by (simp add: uniform_step_True Let_def schrage_1_40 j rd del: funpow.simps)
  moreover have "nfloor (ndiv (Num 893351816) NDIV) = Num 13" by (simp add: NDIV_val)
  ultimately show ?thesis
    by (simp add: uniform_step_False prod_eq_iff)
qed

section \<open>The cache of normal\<close>

lemma is_int_iff: "is_int x \<longleftrightarrow> (\<exists>i::int. x = Num (of_int i))"
proof (cases x)
  case (Num r)
  then show ?thesis by auto
qed simp_all

lemma is_int_schrage: "is_int x \<Longrightarrow> is_int (schrage x)"
  unfolding is_int_iff using schrage_of_int by blast

lemma is_int_schrage_iter: "is_int x \<Longrightarrow> is_int ((schrage ^^ n) x)"
  by (induction n) (simp_all add: is_int_schrage)

lemma int_state_idum: "int_state st \<Longrightarrow> is_int x \<Longrightarrow> int_state (st\<lparr>idum := x\<rparr>)"
  by (simp add: int_state_def)

lemma int_state_iv_upd:
  "int_state st \<Longrightarrow> is_int x \<Longrightarrow> int_state (st\<lparr>iv := (iv st)(k \<mapsto> x)\<rparr>)"
  by (simp add: int_state_def)

lemma int_state_clear: "int_state st \<Longrightarrow> int_state (st\<lparr>iv := iv_clear (iv st)\<rparr>)"
  by (simp add: int_state_def iv_clear_def)

lemma int_state_warm_body: "int_state st \<Longrightarrow> int_state (warm_body j st)"
  by (simp add: warm_body_def Let_def int_state_def is_int_schrage)

lemma int_state_warmup: "int_state st \<Longrightarrow> int_state (warmup n st)"
  by (induction n arbitrary: st) (simp_all add: int_state_warm_body)

lemma int_state_uniform_init:
  "int_state st \<Longrightarrow> is_int start \<Longrightarrow> int_state (fst (uniform_init st start))"
proof -
  assume a: "int_state st" "is_int start"
  have "int_state (st\<lparr>iv := iv_clear (iv st), idum := start\<rparr>)"
    using a by (simp add: int_state_def iv_clear_def)
  then have "int_state (warmup (NTAB + 7) (st\<lparr>iv := iv_clear (iv st), idum := start\<rparr>))"
    by (rule int_state_warmup)
  then show ?thesis
    by (simp add: uniform_init_def Let_def init_seed)
qed

lemma int_draw_scale:
  assumes "int_state st"
  shows "int_draw (if ngt (nmul AM (iv_get (iv st) j)) RNMX then RNMX
                   else nmul AM (iv_get (iv st) j))"
proof (cases "iv st j")
  case None
  then show ?thesis by (simp add: iv_get_def int_draw_def static_defs)
next
  case (Some v)
  with assms have "is_int v" by (auto simp: int_state_def)
  then obtain t :: int where "v = Num (of_int t)" unfolding is_int_iff by blast
  with Some show ?thesis
    unfolding int_draw_def iv_get_def by (simp only: option.case scale_Num) blast
qed

lemma int_state_uniform:
  assumes "int_state st" "init \<longrightarrow> is_int start"
  shows "int_draw (fst (uniform st start init)) \<and> int_state (snd (uniform st start init))"
proof (cases init)
  case False
  have "int_state (st\<lparr>idum := schrage (idum st), iv := (iv st)(Num 0 \<mapsto> schrage (idum st))\<rparr>)"
    using assms(1) by (simp add: int_state_def is_int_schrage)
  with False int_draw_scale [OF assms(1), of "Num 0"] show ?thesis
    by (simp add: uniform_eq uniform_step_False)
next
  case True
  with assms have s: "is_int start" by simp
  define st1 where "st1 = fst (uniform_init st start)"
  define x where "x = (schrage ^^ 40) start"
  define j where "j = nfloor (ndiv x NDIV)"
  have i1: "int_state st1" unfolding st1_def using assms(1) s by (rule int_state_uniform_init)
  have ix: "is_int (schrage x)" unfolding x_def using s by (intro is_int_schrage is_int_schrage_iter)
  have "int_state (st1\<lparr>idum := schrage x, iv := (iv st1)(j \<mapsto> schrage x)\<rparr>)"
    using i1 ix by (simp add: int_state_def)
  moreover note int_draw_scale [OF i1, of j]
  moreover have "uniform st start init =
     (if ngt (nmul AM (iv_get (iv st1) j)) RNMX then RNMX else nmul AM (iv_get (iv st1) j),
      st1\<lparr>idum := schrage x, iv := (iv st1)(j \<mapsto> schrage x)\<rparr>)"
    unfolding st1_def x_def j_def using True
    by (simp add: uniform_eq uniform_step_True Let_def del: funpow.simps)
  ultimately show ?thesis by (simp only: fst_conv snd_conv simp_thms)
qed

lemma uniform_fields:
  "normVal (snd (uniform st start init)) = normVal st
   \<and> dev_u (snd (uniform st start init)) = dev_u st
   \<and> dev_s (snd (uniform st start init)) = dev_s st"
proof (cases init)
  case True
  have "normVal (warmup n s) = normVal s \<and> dev_u (warmup n s) = dev_u s \<and> dev_s (warmup n s) = dev_s s" for n s
    by (induction n arbitrary: s) (simp_all add: warm_body_def Let_def)
  then have "normVal (fst (uniform_init st start)) = normVal st
     \<and> dev_u (fst (uniform_init st start)) = dev_u st \<and> dev_s (fst (uniform_init st start)) = dev_s st"
    by (simp add: uniform_init_def Let_def)
  with True show ?thesis
    by (simp add: uniform_eq uniform_step_True Let_def del: funpow.simps)
next
  case False
  then show ?thesis by (simp add: uniform_eq uniform_step_False)
qed

lemma int_draw_centred: "int_draw x \<Longrightarrow> nsub (nmul (Num 2) x) (Num 1) \<noteq> Num 0"
proof -
  assume "int_draw x"
  then consider "x = NaN" | t :: int where "x = Num (min (of_int t / 2147483647) (1 - 12 / 100000000))"
    unfolding int_draw_def by blast
  then show ?thesis
  proof cases
    case 1
    then show ?thesis by (simp add: nsub_def)
  next
    case 2
    have "2 * t \<noteq> 2147483647" by presburger
    then have "2 * real_of_int t \<noteq> 2147483647"
      by (metis of_int_eq_iff of_int_mult of_int_numeral)
    then have "real_of_int t / 2147483647 \<noteq> 1 / 2" by (simp add: field_simps)
    then have "min (real_of_int t / 2147483647) (1 - 12 / 100000000) \<noteq> 1 / 2"
      by (simp add: min_def)
    with 2 show ?thesis by (simp add: nsub_def)
  qed
qed


lemma normal_loop_exit:
  assumes "normal_loop st start init v1 v2 rsq = Some y"
  shows "loop_post st start init v1 v2 rsq y"
proof (rule normal_loop.raw_induct [of loop_post, OF _ assms])
  fix nl st start init v1 v2 rsq y
  assume IH: "\<And>st start init v1 v2 rsq y.
      nl st start init v1 v2 rsq = Some y \<Longrightarrow> loop_post st start init v1 v2 rsq y"
    and eq: "(if nge rsq (Num 1) \<or> nseq rsq (Num 0)
      then let (x1, st1) = uniform st start init;
               v1' = nsub (nmul (Num 2) x1) (Num 1);
               (x2, st2) = uniform st1 start init;
               v2' = nsub (nmul (Num 2) x2) (Num 1)
           in Let (nadd (nmul v1' v1') (nmul v2' v2')) (nl st2 start init v1' v2')
      else Some (v1, v2, rsq, st)) = Some y"
  show "loop_post st start init v1 v2 rsq y"
    unfolding loop_post_def
  proof (intro impI)
    assume i: "int_state st" and s: "init \<longrightarrow> is_int start"
      and e: "nge rsq (Num 1) \<or> nseq rsq (Num 0) \<or> v1 \<noteq> Num 0"
    show "case y of (w1, w2, q, st') \<Rightarrow>
            w1 \<noteq> Num 0 \<and> \<not> nge q (Num 1) \<and> \<not> nseq q (Num 0) \<and> int_state st'
            \<and> normVal st' = normVal st \<and> dev_u st' = dev_u st \<and> dev_s st' = dev_s st"
    proof (cases "nge rsq (Num 1) \<or> nseq rsq (Num 0)")
      case False
      with eq e i show ?thesis by auto
    next
      case True
      define x1 where "x1 = fst (uniform st start init)"
      define st1 where "st1 = snd (uniform st start init)"
      define x2 where "x2 = fst (uniform st1 start init)"
      define st2 where "st2 = snd (uniform st1 start init)"
      define w1 where "w1 = nsub (nmul (Num 2) x1) (Num 1)"
      define w2 where "w2 = nsub (nmul (Num 2) x2) (Num 1)"
      from int_state_uniform [OF i s] have d1: "int_draw x1" and i1: "int_state st1"
        by (simp_all add: x1_def st1_def)
      from int_state_uniform [OF i1 s] have i2: "int_state st2"
        by (simp add: st2_def)
      have f: "normVal st2 = normVal st" "dev_u st2 = dev_u st" "dev_s st2 = dev_s st"
        using uniform_fields [of st start init] uniform_fields [of st1 start init]
        by (simp_all add: st2_def st1_def)
      have w: "w1 \<noteq> Num 0" unfolding w1_def using d1 by (rule int_draw_centred)
      from eq True
      have "nl st2 start init w1 w2 (nadd (nmul w1 w1) (nmul w2 w2)) = Some y"
        by (simp add: split_def Let_def x1_def st1_def x2_def st2_def w1_def w2_def)
      from IH [OF this] i2 s w have
        "case y of (w1, w2, q, st') \<Rightarrow>
            w1 \<noteq> Num 0 \<and> \<not> nge q (Num 1) \<and> \<not> nseq q (Num 0) \<and> int_state st'
            \<and> normVal st' = normVal st2 \<and> dev_u st' = dev_u st2 \<and> dev_s st' = dev_s st2"
        unfolding loop_post_def by blast
      with f show ?thesis by (simp add: split_def)
    qed
  qed
qed

lemma fac_nonzero:
  assumes "\<not> nge q (Num 1)" "\<not> nseq q (Num 0)"
  shows "nsqrt (ndiv (nmul (Num (- 2)) (nlog q)) q) \<noteq> Num 0"
proof (cases q)
  case (Num b)
  with assms have b: "b < 1" "b \<noteq> 0" by (auto simp: nge_def)
  show ?thesis
  proof (cases "b < 0")
    case True
    with Num show ?thesis by simp
  next
    case False
    with b have "0 < b" by simp
    with b have "ln b < 0" by simp
    with \<open>0 < b\<close> have "0 < - 2 * ln b / b" by (simp add: field_simps)
    with Num \<open>0 < b\<close> b show ?thesis by simp
  qed
qed (use assms in \<open>simp_all add: nge_def\<close>)

lemma nmul_nonzero: "a \<noteq> Num 0 \<Longrightarrow> b \<noteq> Num 0 \<Longrightarrow> nmul a b \<noteq> Num 0"
  by (cases a; cases b) auto

lemma nseq_zero: "nseq a (Num 0) \<longleftrightarrow> a = Num 0"
  by (cases a) auto


lemma int_state_set_mean_sd: "int_state (set_mean_sd st mu sig init) = int_state st"
  by (simp add: set_mean_sd_def int_state_def)

lemma set_mean_sd_fields:
  "normVal (set_mean_sd st mu sig init) = normVal st
   \<and> idum (set_mean_sd st mu sig init) = idum st \<and> iv (set_mean_sd st mu sig init) = iv st"
  by (simp add: set_mean_sd_def)

text \<open>
  The calls of \<open>normal\<close> that return. Take an instance whose seed and table are integers
  (a fresh instance, or one reached from it by calls with integer start values) and a
  call of \<open>normal\<close> that returns. The call flips the cache: if the cache was empty
  (\<open>normVal === 0.0\<close>) the call ran the rejection loop and cached \<open>v1*fac\<close>, which is
  not 0, so the cache is now full; if the cache was full the call returned
  \<open>u + s*normVal\<close>, drew nothing (seed and table are unchanged) and emptied the cache.
  This says nothing of a call whose loop never ends.
\<close>

theorem normal_cache_alternates:
  assumes "int_state st" "init \<longrightarrow> is_int start"
    and "normal st start mu sig init = Some (r, st')"
  shows "nseq (normVal st') (Num 0) = (\<not> nseq (normVal st) (Num 0))
       \<and> int_state st'
       \<and> (\<not> nseq (normVal st) (Num 0) \<longrightarrow>
            r = nadd (dev_u st') (nmul (dev_s st') (normVal st))
            \<and> idum st' = idum st \<and> iv st' = iv st)
       \<and> (nseq (normVal st) (Num 0) \<longrightarrow>
            (\<exists>v1 v2 rsq st1.
               normal_loop (set_mean_sd st mu sig init) start init NaN NaN (Num 0)
                 = Some (v1, v2, rsq, st1)
               \<and> normVal st' = nmul v1 (nsqrt (ndiv (nmul (Num (- 2)) (nlog rsq)) rsq))
               \<and> r = nadd (dev_u st1)
                        (nmul (nmul (dev_s st1) v2)
                              (nsqrt (ndiv (nmul (Num (- 2)) (nlog rsq)) rsq)))))"
proof (cases "nseq (normVal st) (Num 0)")
  case False
  define st0 where "st0 = set_mean_sd st mu sig init"
  have n0: "normVal st0 = normVal st" "idum st0 = idum st" "iv st0 = iv st"
    using set_mean_sd_fields [of st mu sig init] by (simp_all add: st0_def)
  from assms(3) False n0
  have r: "r = nadd (dev_u st0) (nmul (dev_s st0) (normVal st))" and s: "st' = st0\<lparr>normVal := Num 0\<rparr>"
    by (simp_all add: normal_def Let_def st0_def [symmetric])
  have "int_state st'"
    using assms(1) int_state_set_mean_sd [of st mu sig init]
    by (simp add: s st0_def int_state_def)
  with False r s n0 show ?thesis by simp
next
  case True
  define st0 where "st0 = set_mean_sd st mu sig init"
  have n0: "normVal st0 = normVal st" and i0: "int_state st0"
    using set_mean_sd_fields [of st mu sig init] int_state_set_mean_sd [of st mu sig init] assms(1)
    by (simp_all add: st0_def)
  from assms(3) True n0 obtain v1 v2 rsq st1 where
    l: "normal_loop st0 start init NaN NaN (Num 0) = Some (v1, v2, rsq, st1)"
    and r: "r = nadd (dev_u st1)
                  (nmul (nmul (dev_s st1) v2) (nsqrt (ndiv (nmul (Num (- 2)) (nlog rsq)) rsq)))"
    and s: "st' = st1\<lparr>normVal := nmul v1 (nsqrt (ndiv (nmul (Num (- 2)) (nlog rsq)) rsq))\<rparr>"
    by (auto simp: normal_def Let_def st0_def [symmetric] split: option.splits)
  from normal_loop_exit [OF l] i0 assms(2)
  have p: "v1 \<noteq> Num 0" "\<not> nge rsq (Num 1)" "\<not> nseq rsq (Num 0)" "int_state st1"
    unfolding loop_post_def by simp_all
  have "nmul v1 (nsqrt (ndiv (nmul (Num (- 2)) (nlog rsq)) rsq)) \<noteq> Num 0"
    using p(1) fac_nonzero [OF p(2,3)] by (rule nmul_nonzero)
  then have a: "\<not> nseq (normVal st') (Num 0)" by (simp add: s nseq_zero)
  have b: "int_state st'" using p(4) by (simp add: s int_state_def)
  from True a b l r s show ?thesis
    unfolding st0_def by auto
qed

lemma schrage_int_1_40: "(schrage_int ^^ 40) 1 = 784558821"
  by (simp add: funpow_numeral_unfold schrage_int_def)

lemma schrage_int_1_29: "(schrage_int ^^ 29) 1 = 893351816"
  by (simp add: funpow_numeral_unfold schrage_int_def)

lemma uniform_seed_1: "fst (uniform st (Num 1) True) = Num (893351816 / 2147483647)"
proof -
  have "fst (uniform st (Num (of_int 1)) True) =
      Num (min (of_int ((schrage_int ^^ (40 - nat (16 * (schrage_int ^^ 40) 1 div 1073741839))) 1)
                 / 2147483647) (1 - 12 / 100000000))"
    by (rule uniform_True_explicit(1)) (simp_all add: schrage_int_1_40)
  then show ?thesis
    by (simp add: schrage_int_1_40 schrage_int_1_29)
qed

lemma fac_Num:
  assumes "0 < b" "b < 1"
  shows "nsqrt (ndiv (nmul (Num (- 2)) (nlog (Num b))) (Num b)) = Num (sqrt (- 2 * ln b / b))"
    and "0 < sqrt (- 2 * ln b / b)"
proof -
  from assms have "ln b < 0" by simp
  with assms(1) have p: "0 < - 2 * ln b / b" by (simp add: field_simps)
  then show "0 < sqrt (- 2 * ln b / b)" by simp
  from p have "\<not> - 2 * ln b / b < 0" by simp
  with assms(1) show "nsqrt (ndiv (nmul (Num (- 2)) (nlog (Num b))) (Num b)) = Num (sqrt (- 2 * ln b / b))"
    by simp
qed

lemma normal_loop_seed_1:
  "normal_loop st (Num 1) True v1 v2 (Num 0) =
     Some (Num (- 360780015 / 2147483647), Num (- 360780015 / 2147483647),
           Num (2 * (360780015 / 2147483647)\<^sup>2),
           snd (uniform (snd (uniform st (Num 1) True)) (Num 1) True))"
  apply (subst normal_loop.simps)
  apply (simp add: split_def Let_def uniform_seed_1 nsub_def)
  apply (subst normal_loop.simps)
  apply (simp add: nge_def power2_eq_square)
  done


lemma int_state_new: "int_state Deviates_new"
  by (simp add: int_state_def Deviates_new_def)

lemma normal_seed_1:
  fixes b f :: real
  defines "b \<equiv> 2 * (360780015 / 2147483647)\<^sup>2"
  defines "f \<equiv> sqrt (- 2 * ln b / b)"
  shows "normal Deviates_new (Num 1) (Num 0) (Num 1) True =
     Some (Num (- 360780015 / 2147483647 * f),
           (snd (uniform (snd (uniform (set_mean_sd Deviates_new (Num 0) (Num 1) True) (Num 1) True))
                   (Num 1) True))
           \<lparr>normVal := Num (- 360780015 / 2147483647 * f)\<rparr>)"
    and "0 < f"
proof -
  have b: "0 < b" "b < 1" by (simp_all add: b_def power2_eq_square)
  from fac_Num [OF b]
  have fac: "nsqrt (ndiv (nmul (Num (- 2)) (nlog (Num b))) (Num b)) = Num f" and f: "0 < f"
    by (simp_all only: f_def)
  show "0 < f" by (rule f)
  define st0 where "st0 = set_mean_sd Deviates_new (Num 0) (Num 1) True"
  define st2 where "st2 = snd (uniform (snd (uniform st0 (Num 1) True)) (Num 1) True)"
  have n0: "nseq (normVal st0) (Num 0)" by (simp add: st0_def set_mean_sd_def Deviates_new_def)
  have f2: "dev_u st2 = Num 0" "dev_s st2 = Num 1"
    using uniform_fields [of st0 "Num 1" True]
      uniform_fields [of "snd (uniform st0 (Num 1) True)" "Num 1" True]
    by (simp_all add: st2_def st0_def set_mean_sd_def Deviates_new_def static_defs)
  have l: "normal_loop st0 (Num 1) True NaN NaN (Num 0) =
      Some (Num (- 360780015 / 2147483647), Num (- 360780015 / 2147483647), Num b, st2)"
    unfolding b_def st2_def by (rule normal_loop_seed_1)
  have "normal Deviates_new (Num 1) (Num 0) (Num 1) True =
      Some (nadd (dev_u st2) (nmul (nmul (dev_s st2) (Num (- 360780015 / 2147483647))) (Num f)),
            st2\<lparr>normVal := nmul (Num (- 360780015 / 2147483647)) (Num f)\<rparr>)"
    unfolding normal_def Let_def st0_def [symmetric]
    by (simp only: n0 l if_True option.case prod.case fac)
  then have "normal Deviates_new (Num 1) (Num 0) (Num 1) True =
      Some (Num (- 360780015 / 2147483647 * f), st2\<lparr>normVal := Num (- 360780015 / 2147483647 * f)\<rparr>)"
    by (simp add: f2)
  then show "normal Deviates_new (Num 1) (Num 0) (Num 1) True =
     Some (Num (- 360780015 / 2147483647 * f),
           (snd (uniform (snd (uniform (set_mean_sd Deviates_new (Num 0) (Num 1) True) (Num 1) True))
                   (Num 1) True))
           \<lparr>normVal := Num (- 360780015 / 2147483647 * f)\<rparr>)"
    unfolding st2_def st0_def .
qed

text \<open>
  On a fresh instance \<open>normal(1, 0, 1, true)\<close> finds the cache empty and fills it, the
  next call \<open>normal(1, 0, 1, false)\<close> returns the cached value without a draw and
  empties the cache.
\<close>

theorem normal_cache_alternates_witness:
  "int_state Deviates_new \<and> is_int (Num 1)
   \<and> (\<exists>r1 st1 r2 st2.
        normal Deviates_new (Num 1) (Num 0) (Num 1) True = Some (r1, st1)
        \<and> normal st1 (Num 1) (Num 0) (Num 1) False = Some (r2, st2)
        \<and> nseq (normVal Deviates_new) (Num 0) \<and> \<not> nseq (normVal st1) (Num 0)
        \<and> nseq (normVal st2) (Num 0)
        \<and> r2 = nadd (dev_u st2) (nmul (dev_s st2) (normVal st1))
        \<and> idum st2 = idum st1 \<and> iv st2 = iv st1)"
proof -
  obtain r1 st1 where e1: "normal Deviates_new (Num 1) (Num 0) (Num 1) True = Some (r1, st1)"
    using normal_seed_1(1) by blast
  have i: "is_int (Num 1)" by simp
  have z: "nseq (normVal Deviates_new) (Num 0)" by (simp add: Deviates_new_def)
  from normal_cache_alternates [OF int_state_new _ e1] i z
  have a1: "\<not> nseq (normVal st1) (Num 0)" and i1: "int_state st1" by simp_all
  obtain r2 st2 where e2: "normal st1 (Num 1) (Num 0) (Num 1) False = Some (r2, st2)"
    using a1 by (simp add: normal_def Let_def set_mean_sd_def)
  from normal_cache_alternates [OF i1 _ e2] a1
  have "nseq (normVal st2) (Num 0)" "r2 = nadd (dev_u st2) (nmul (dev_s st2) (normVal st1))"
    "idum st2 = idum st1" "iv st2 = iv st1" by simp_all
  with e1 e2 a1 z i int_state_new show ?thesis by blast
qed

text \<open>
  C6 fails on the code: \<open>normal\<close> never resets \<open>normVal\<close> on \<open>init\<close>. After
  \<open>normal(1, 0, 1, true)\<close> the cache is full; the call \<open>normal(2, 0, 1, true)\<close>, a
  re-initialisation with another seed, returns that cached value of seed 1 and leaves
  the seed and the table as they were: nothing was discarded and nothing re-seeded.
\<close>

theorem normal_init_keeps_cache:
  "\<exists>c st1 st2.
     normal Deviates_new (Num 1) (Num 0) (Num 1) True = Some (c, st1)
     \<and> \<not> nseq (normVal st1) (Num 0)
     \<and> normal st1 (Num 2) (Num 0) (Num 1) True = Some (c, st2)
     \<and> c = normVal st1 \<and> idum st2 = idum st1 \<and> iv st2 = iv st1"
proof -
  define f :: real where
    "f = sqrt (- 2 * ln (2 * (360780015 / 2147483647)\<^sup>2) / (2 * (360780015 / 2147483647)\<^sup>2))"
  define c :: real where "c = - 360780015 / 2147483647 * f"
  define st where "st =
    snd (uniform (snd (uniform (set_mean_sd Deviates_new (Num 0) (Num 1) True) (Num 1) True))
           (Num 1) True)"
  define st1 where "st1 = st\<lparr>normVal := Num c\<rparr>"
  have e1: "normal Deviates_new (Num 1) (Num 0) (Num 1) True = Some (Num c, st1)"
    using normal_seed_1(1) by (simp only: st1_def st_def c_def f_def)
  have "0 < f" using normal_seed_1(2) by (simp only: f_def)
  then have c: "c \<noteq> 0" by (simp add: c_def)
  then have p: "\<not> nseq (normVal st1) (Num 0)" by (simp add: st1_def)
  have d: "dev_u st = Num 0" "dev_s st = Num 1"
    using uniform_fields [of "set_mean_sd Deviates_new (Num 0) (Num 1) True" "Num 1" True]
      uniform_fields [of "snd (uniform (set_mean_sd Deviates_new (Num 0) (Num 1) True) (Num 1) True)"
        "Num 1" True]
    by (simp_all add: st_def set_mean_sd_def Deviates_new_def static_defs)
  define st2 where "st2 = (set_mean_sd st1 (Num 0) (Num 1) True)\<lparr>normVal := Num 0\<rparr>"
  have e2: "normal st1 (Num 2) (Num 0) (Num 1) True = Some (Num c, st2)"
    using c by (simp add: normal_def Let_def set_mean_sd_def static_defs st1_def st2_def)
  have "idum st2 = idum st1" "iv st2 = iv st1" "Num c = normVal st1"
    by (simp_all add: st2_def st1_def set_mean_sd_def)
  with e1 e2 p show ?thesis by blast
qed

text \<open>
  C9 fails on the code: in \<open>isNaN(sig) || sig > 0 ? sig : 1.0\<close> a \<open>NaN\<close> takes the
  first branch, so a \<open>NaN\<close> standard deviation is adopted as it is, in \<open>normal\<close> and
  in \<open>logistic\<close>. (A \<open>NaN\<close> mean does fall back to 0.)
\<close>

theorem stdDev_NaN_adopted:
  "dev_s (set_mean_sd st mu NaN True) = NaN
   \<and> dev_u (set_mean_sd st NaN sig True) = Num 0"
  by (simp add: set_mean_sd_def)

lemma schrage_int_7: "(schrage_int ^^ 40) 7 = 1196944453" "(schrage_int ^^ 23) 7 = 263789375"
  by (simp_all add: funpow_numeral_unfold schrage_int_def)

lemma uniform_seed_7: "fst (uniform st (Num 7) True) = Num (263789375 / 2147483647)"
proof -
  have "fst (uniform st (Num (of_int 7)) True) =
      Num (min (of_int ((schrage_int ^^ (40 - nat (16 * (schrage_int ^^ 40) 7 div 1073741839))) 7)
                 / 2147483647) (1 - 12 / 100000000))"
    by (rule uniform_True_explicit(1)) (simp_all add: schrage_int_7)
  then show ?thesis
    by (simp add: schrage_int_7)
qed

lemma normal_loop_seed_7:
  assumes "normal_loop st start init v1 v2 rsq = Some y"
  shows "never_7 st start init v1 v2 rsq y"
proof (rule normal_loop.raw_induct [of never_7, OF _ assms])
  fix nl st start init v1 v2 rsq y
  assume IH: "\<And>st start init v1 v2 rsq y.
      nl st start init v1 v2 rsq = Some y \<Longrightarrow> never_7 st start init v1 v2 rsq y"
    and eq: "(if nge rsq (Num 1) \<or> nseq rsq (Num 0)
      then let (x1, st1) = uniform st start init;
               v1' = nsub (nmul (Num 2) x1) (Num 1);
               (x2, st2) = uniform st1 start init;
               v2' = nsub (nmul (Num 2) x2) (Num 1)
           in Let (nadd (nmul v1' v1') (nmul v2' v2')) (nl st2 start init v1' v2')
      else Some (v1, v2, rsq, st)) = Some y"
  show "never_7 st start init v1 v2 rsq y"
    unfolding never_7_def
  proof
    assume c: "start = Num 7 \<and> init \<and> (nge rsq (Num 1) \<or> nseq rsq (Num 0))"
    define st2 where "st2 = snd (uniform (snd (uniform st (Num 7) True)) (Num 7) True)"
    define q :: real where "q = 2 * (263789375 / 2147483647) - 1"
    from eq c have "nl st2 (Num 7) True (Num q) (Num q) (Num (q * q + q * q)) = Some y"
      by (simp add: split_def Let_def uniform_seed_7 nsub_def st2_def q_def)
    from IH [OF this] have "\<not> nge (Num (q * q + q * q)) (Num 1)"
      unfolding never_7_def by simp
    then show False by (simp add: nge_def q_def)
  qed
qed

text \<open>
  C7 fails on the code. \<open>normal\<close> passes \<open>init\<close> on to every call of \<open>uniform\<close> in
  its rejection loop, so with \<open>init = true\<close> each draw re-initialises the generator:
  both draws of a pass are the first draw of the seed, and every pass is the same. With
  seed 7 that draw is \<open>263789375 / IM = 0.1228\<close>, \<open>v1 = v2 = -0.7543\<close> and
  \<open>rsq = 1.138 >= 1\<close>: the initialising call \<open>normal(7, 0, 1, true)\<close> on a fresh instance
  never returns. No pair is computed, nothing is cached and no second call follows.
\<close>

theorem normal_init_never_returns:
  "normal Deviates_new (Num 7) (Num 0) (Num 1) True = None"
proof -
  define st0 where "st0 = set_mean_sd Deviates_new (Num 0) (Num 1) True"
  have "normal_loop st0 (Num 7) True NaN NaN (Num 0) = None"
  proof (cases "normal_loop st0 (Num 7) True NaN NaN (Num 0)")
    case (Some y)
    from normal_loop_seed_7 [OF this] show ?thesis by (simp add: never_7_def)
  qed simp
  moreover have "nseq (normVal st0) (Num 0)"
    by (simp add: st0_def set_mean_sd_def Deviates_new_def)
  ultimately show ?thesis
    by (simp add: normal_def Let_def st0_def [symmetric])
qed

section \<open>The rejection loop of gamma\<close>

lemma ln_upper_5:
  fixes t :: real
  assumes "0 \<le> t"
  shows "ln (1 + t) \<le> t - t\<^sup>2 / 2 + t ^ 3 / 3 - t ^ 4 / 4 + t ^ 5 / 5"
proof -
  define g :: "real \<Rightarrow> real" where
    "g = (\<lambda>s. s - s\<^sup>2 / 2 + s ^ 3 / 3 - s ^ 4 / 4 + s ^ 5 / 5 - ln (1 + s))"
  have d: "\<exists>y. (g has_real_derivative y) (at s) \<and> 0 \<le> y" if "0 \<le> s" for s
  proof -
    have "(g has_real_derivative (1 - s + s\<^sup>2 - s ^ 3 + s ^ 4 - 1 / (1 + s))) (at s)"
      unfolding g_def using that
      by (auto intro!: derivative_eq_intros simp: field_simps)
    moreover have "1 - s + s\<^sup>2 - s ^ 3 + s ^ 4 - 1 / (1 + s) = s ^ 5 / (1 + s)"
      using that by (simp add: field_simps power2_eq_square power3_eq_cube power4_eq_xxxx
          power_numeral_reduce)
    moreover have "0 \<le> s ^ 5 / (1 + s)" using that by simp
    ultimately show ?thesis by auto
  qed
  have "g 0 \<le> g t"
    by (rule DERIV_nonneg_imp_nondecreasing [OF assms]) (use d in auto)
  then show ?thesis by (simp add: g_def)
qed

lemma ln_lower: "0 < u \<Longrightarrow> 1 - 1 / u \<le> ln (u::real)"
  using ln_le_minus_one [of "1 / u"] by (simp add: ln_div)


lemma reject_chain:
  fixes a c L lw P lb lu :: real
  assumes "L = 3 * lw" "lw \<le> P" "lb \<le> lu" "a + (c + 3 * P) < lb"
  shows "a + (c + L) < lu"
  using assms by linarith

lemma gamma_reject_172:
  fixes x u w :: real
  defines "x \<equiv> 1800131098 / 2147483647"
  defines "u \<equiv> 2144582888 / 2147483647"
  defines "w \<equiv> 1 + x / 3"
  shows "x * x / 2 + (1 - w * w * w + ln (w * w * w)) < ln u"
proof -
  define t where "t = x / 3"
  have t: "0 \<le> t" by (simp add: t_def x_def)
  have w: "w = 1 + t" "0 < w" by (simp_all add: w_def t_def x_def)
  have "ln (w * w * w) = 3 * ln w"
    using w(2) by (simp add: ln_mult)
  moreover have "ln w \<le> t - t\<^sup>2 / 2 + t ^ 3 / 3 - t ^ 4 / 4 + t ^ 5 / 5"
    unfolding w(1) using t by (rule ln_upper_5)
  moreover have "1 - 1 / u \<le> ln u" by (rule ln_lower) (simp add: u_def)
  moreover have "x * x / 2 + (1 - w * w * w + 3 * (t - t\<^sup>2 / 2 + t ^ 3 / 3 - t ^ 4 / 4 + t ^ 5 / 5))
       < 1 - 1 / u"
    by (simp add: w_def t_def x_def u_def power_numeral_reduce)
  ultimately show ?thesis by (rule reject_chain)
qed


lemma uniform_False_explicit:
  assumes "idum st = Num (of_int i)" "iv st (Num 0) = Some (Num (of_int t))"
  shows "uniform st start False =
    (Num (min (of_int t / 2147483647) (1 - 12 / 100000000)),
     st\<lparr>idum := Num (of_int (schrage_int i)),
        iv := (iv st)(Num 0 \<mapsto> Num (of_int (schrage_int i)))\<rparr>)"
  by (simp add: uniform_eq uniform_step_False iv_get_def assms schrage_of_int scale_Num)

lemma gamma_draw_stop:
  "\<not> nle v (Num 0) \<Longrightarrow> gamma_draw st start init x v = Some (x, v, st)"
  by (subst gamma_draw.simps) simp

lemma gamma_draw_once:
  assumes "nle v (Num 0)" "uniform st start init = (x', st')"
    and "\<not> nle (nadd (Num 1) (nmul (dev_a2 st') x')) (Num 0)"
  shows "gamma_draw st start init x v = Some (x', nadd (Num 1) (nmul (dev_a2 st') x'), st')"
  by (subst gamma_draw.simps) (simp add: assms gamma_draw_stop)

lemma gamma_loop_step:
  assumes "gamma_test st u v xSQ" "gamma_body st start init x v = Some (u', v', x', xSQ', st')"
  shows "gamma_loop st start init u v x xSQ = gamma_loop st' start init u' v' x' xSQ'"
  by (subst gamma_loop.simps) (simp add: assms)

lemma gamma_loop_stop:
  "\<not> gamma_test st u v xSQ \<Longrightarrow> gamma_loop st start init u v x xSQ = Some (v, st)"
  by (subst gamma_loop.simps) simp

lemma schrage_int_172:
  "(schrage_int ^^ 40) 172 = 1800131098" "(schrage_int ^^ 41) 172 = 1053745150"
  "schrage_int 1053745150 = 2144582888" "schrage_int 2144582888 = 639067368"
  "schrage_int 639067368 = 1239535329"
  by (simp_all add: funpow_numeral_unfold schrage_int_def)

lemma sqrt_9: "sqrt 9 = 3"
  using real_sqrt_abs [of 3] by simp


text \<open>
  C8 fails on the code. The inner loop \<open>while (v <= 0.0)\<close> draws \<open>x\<close> only while
  \<open>v\<close> is not positive, and \<open>v\<close> is not reset in the outer loop: after a rejected
  candidate \<open>v\<close> is positive, so the next pass draws no \<open>x\<close> and cubes the old
  \<open>v\<close> again. After \<open>uniform(172, true)\<close>, the call \<open>gamma(172, 4/3, 1, false)\<close>
  draws \<open>x\<close> and \<open>u\<close>, rejects the candidate, draws only a new \<open>u\<close> and returns
  \<open>a1 * (1 + a2*x)^9 / b\<close> for the first \<open>x\<close>: three draws in all, and a value above
  \<open>(1 + a2)^3\<close>, which no \<open>a1 * (1 + a2*x)^3 / b\<close> with \<open>x\<close> in \<open>[0,1)\<close> reaches.
\<close>

theorem gamma_second_pass_keeps_x:
  "\<exists>st'. gamma (snd (uniform Deviates_new (Num 172) True)) (Num 172) (Num (4 / 3)) (Num 1) False
           = Some (Num ((1 + 1800131098 / 2147483647 / 3) ^ 9), st')
         \<and> idum st' = Num 1239535329
         \<and> ((1 + 1 / 3) ^ 3 :: real) < (1 + 1800131098 / 2147483647 / 3) ^ 9"
proof -
  define x :: real where "x = 1800131098 / 2147483647"
  define u :: real where "u = 2144582888 / 2147483647"
  define u2 :: real where "u2 = 639067368 / 2147483647"
  define w :: real where "w = 1 + x / 3"
  define sa where "sa = snd (uniform Deviates_new (Num 172) True)"
  define sg where "sg = sa\<lparr>dev_a := Num (4 / 3), dev_b := Num 1, dev_a1 := Num 1, dev_a2 := Num (1 / 3)\<rparr>"
  define s1 where "s1 = sg\<lparr>idum := Num 2144582888, iv := (iv sg)(Num 0 \<mapsto> Num 2144582888)\<rparr>"
  define s2 where "s2 = s1\<lparr>idum := Num 639067368, iv := (iv s1)(Num 0 \<mapsto> Num 639067368)\<rparr>"
  define s3 where "s3 = s2\<lparr>idum := Num 1239535329, iv := (iv s2)(Num 0 \<mapsto> Num 1239535329)\<rparr>"
  have r: "0 \<le> (schrage_int ^^ 40) 172" "(schrage_int ^^ 40) 172 < 2147483647"
    by (simp_all add: schrage_int_172)
  have a: "idum sa = Num (of_int 1053745150)" "iv sa (Num 0) = Some (Num (of_int 1800131098))"
    using uniform_True_explicit(2,3) [OF r, of Deviates_new]
    by (simp_all add: sa_def schrage_int_172)
  have p: "gamma_params sa (Num 172) (Num (4 / 3)) (Num 1) = sg"
    by (simp add: gamma_params_def Let_def nsub_def sqrt_9 sg_def)
  have g: "idum sg = Num (of_int 1053745150)" "iv sg (Num 0) = Some (Num (of_int 1800131098))"
    using a by (simp_all add: sg_def)
  have c1: "uniform sg (Num 172) False = (Num x, s1)"
    using uniform_False_explicit [OF g, of "Num 172"]
    by (simp add: schrage_int_172 x_def s1_def)
  have g1: "idum s1 = Num (of_int 2144582888)" "iv s1 (Num 0) = Some (Num (of_int 2144582888))"
    by (simp_all add: s1_def)
  have c2: "uniform s1 (Num 172) False = (Num u, s2)"
    using uniform_False_explicit [OF g1, of "Num 172"]
    by (simp add: schrage_int_172 u_def s2_def)
  have g2: "idum s2 = Num (of_int 639067368)" "iv s2 (Num 0) = Some (Num (of_int 639067368))"
    by (simp_all add: s2_def)
  have c3: "uniform s2 (Num 172) False = (Num u2, s3)"
    using uniform_False_explicit [OF g2, of "Num 172"]
    by (simp add: schrage_int_172 u2_def s3_def)
  have f: "dev_a1 sg = Num 1" "dev_a2 s1 = Num (1 / 3)" "dev_a1 s2 = Num 1" "dev_a1 s3 = Num 1"
    "dev_b s3 = Num 1"
    by (simp_all add: sg_def s1_def s2_def s3_def)
  have wp: "0 < w" "0 < w * w * w" "0 < w * w * w * (w * w * w) * (w * w * w)"
    by (simp_all add: w_def x_def)
  text \<open>The loop is entered: \<open>log(10) > a1 * (1 - 0 + log(0))\<close>, which is \<open>-Infinity\<close>.\<close>
  have t0: "gamma_test sg (Num 10) (Num 0) (Num 0)"
    by (simp add: gamma_test_def f static_defs)
  text \<open>First pass: \<open>x\<close> is drawn, then \<open>u\<close>.\<close>
  have d1: "gamma_draw sg (Num 172) False (Num 0) (Num 0) = Some (Num x, Num w, s1)"
    using gamma_draw_once [of "Num 0" sg "Num 172" False "Num x" s1 "Num 0"] c1 wp(1)
    by (simp add: f w_def)
  have b1: "gamma_body sg (Num 172) False (Num 0) (Num 0)
      = Some (Num u, Num (w * w * w), Num x, Num (x * x), s2)"
    by (simp add: gamma_body_def d1 c2)
  text \<open>The candidate is rejected.\<close>
  have "1 - x * x * (x * x) < u" by (simp add: x_def u_def)
  moreover have "x * x / 2 + (1 - w * w * w + ln (w * w * w)) < ln u"
    unfolding w_def x_def u_def by (rule gamma_reject_172)
  moreover have "0 < u" by (simp add: u_def)
  ultimately have t1: "gamma_test s2 (Num u) (Num (w * w * w)) (Num (x * x))"
    using wp(2) by (simp add: gamma_test_def f static_defs)
  text \<open>Second pass: \<open>v\<close> is positive, so no \<open>x\<close> is drawn; \<open>v\<close> is cubed again.\<close>
  have d2: "gamma_draw s2 (Num 172) False (Num x) (Num (w * w * w)) = Some (Num x, Num (w * w * w), s2)"
    using wp(1) by (intro gamma_draw_stop) (simp add: mult_less_0_iff)
  have b2: "gamma_body s2 (Num 172) False (Num x) (Num (w * w * w))
      = Some (Num u2, Num (w * w * w * (w * w * w) * (w * w * w)), Num x, Num (x * x), s3)"
    by (simp add: gamma_body_def d2 c3)
  have "\<not> 1 - x * x * (x * x) < u2" by (simp add: x_def u2_def)
  then have t2: "\<not> gamma_test s3 (Num u2) (Num (w * w * w * (w * w * w) * (w * w * w))) (Num (x * x))"
    by (simp add: gamma_test_def static_defs)
  have "gamma_loop sg (Num 172) False (Num 10) (Num 0) (Num 0) (Num 0)
      = Some (Num (w * w * w * (w * w * w) * (w * w * w)), s3)"
    by (simp only: gamma_loop_step [OF t0 b1] gamma_loop_step [OF t1 b2] gamma_loop_stop [OF t2])
  then have "gamma sa (Num 172) (Num (4 / 3)) (Num 1) False
      = Some (Num (w * w * w * (w * w * w) * (w * w * w)), s3)"
    by (simp add: gamma_def p f)
  moreover have "w * w * w * (w * w * w) * (w * w * w) = w ^ 9"
    by (simp add: power_numeral_reduce)
  moreover have "idum s3 = Num 1239535329" by (simp add: s3_def)
  moreover have "((1 + 1 / 3) ^ 3 :: real) < (1 + 1800131098 / 2147483647 / 3) ^ 9"
    by (simp add: power_numeral_reduce)
  ultimately show ?thesis
    unfolding sa_def w_def x_def by auto
qed

end
